theory Spec2Isabelle
  imports Complex_Main "HOL-Library.Char_ord" "HOL-Library.List_Lexorder"
begin

section \<open>Strings\<close>

text \<open>
  Python strings are modelled as \<open>string\<close> (lists of 8-bit characters). The character
  classes below are the ASCII part of Python's: \<open>str.lower\<close>, \<open>str.upper\<close>,
  \<open>str.strip\<close>, and the regular-expression classes \<open>\s\<close>, \<open>\w\<close>, \<open>[a-z0-9]\<close>,
  \<open>[0-9]\<close>. For \<open>str\<close> patterns \<open>\s\<close> and \<open>strip()\<close> agree with \<open>str.isspace\<close>, which
  on ASCII holds of the codes 9 to 13, 28 to 31 and 32. Characters outside ASCII are
  outside the model: statements that depend on them carry the hypothesis \<open>is_ascii\<close>.
\<close>

definition ascii_lowercase :: string where
  "ascii_lowercase = ''abcdefghijklmnopqrstuvwxyz''"

definition ascii_uppercase :: string where
  "ascii_uppercase = ''ABCDEFGHIJKLMNOPQRSTUVWXYZ''"

definition digits :: string where
  "digits = ''0123456789''"

definition whitespace :: string where
  "whitespace = [CHR 0x09, CHR 0x0A, CHR 0x0B, CHR 0x0C, CHR 0x0D,
                 CHR 0x1C, CHR 0x1D, CHR 0x1E, CHR 0x1F, CHR 0x20]"

definition is_ascii :: "char \<Rightarrow> bool" where
  "is_ascii c \<longleftrightarrow> (of_char c :: nat) < 128"

definition is_space :: "char \<Rightarrow> bool" where
  "is_space c \<longleftrightarrow> c \<in> set whitespace"

definition is_digit :: "char \<Rightarrow> bool" where
  "is_digit c \<longleftrightarrow> c \<in> set digits"

definition is_az09 :: "char \<Rightarrow> bool" where
  "is_az09 c \<longleftrightarrow> c \<in> set (ascii_lowercase @ digits)"

definition is_word :: "char \<Rightarrow> bool" where
  "is_word c \<longleftrightarrow> c \<in> set (ascii_lowercase @ ascii_uppercase @ digits @ ''_'')"

definition lower_char :: "char \<Rightarrow> char" where
  "lower_char c = (case map_of (zip ascii_uppercase ascii_lowercase) c of
                     Some d \<Rightarrow> d | None \<Rightarrow> c)"

definition upper_char :: "char \<Rightarrow> char" where
  "upper_char c = (case map_of (zip ascii_lowercase ascii_uppercase) c of
                     Some d \<Rightarrow> d | None \<Rightarrow> c)"

definition lower :: "string \<Rightarrow> string" where
  "lower s = map lower_char s"

definition upper :: "string \<Rightarrow> string" where
  "upper s = map upper_char s"

definition strip :: "string \<Rightarrow> string" where
  "strip s = rev (dropWhile is_space (rev (dropWhile is_space s)))"

section \<open>Normalization helpers\<close>

text \<open>\<open>re.sub(r'[\.,]', ' ', s)\<close>\<close>

definition sub_punct :: "string \<Rightarrow> string" where
  "sub_punct s = map (\<lambda>c. if c = CHR ''.'' \<or> c = CHR '','' then CHR '' '' else c) s"

text \<open>
  \<open>re.sub(r'\b(dr|md|do|prof|mr|mrs|ms|jr|sr|ii|iii)\b', '', s)\<close>. The scan goes left to
  right; the flag says whether the character before the current position is a word
  character, which is what \<open>\b\<close> looks at. At a position where \<open>\b\<close> holds the alternatives
  are tried in the order written, and one is taken when \<open>\b\<close> holds after it; the match is
  dropped and the scan resumes behind it. Otherwise the character is copied.
\<close>

definition titles :: "string list" where
  "titles = [''dr'', ''md'', ''do'', ''prof'', ''mr'', ''mrs'', ''ms'', ''jr'', ''sr'', ''ii'', ''iii'']"

definition boundary :: "bool \<Rightarrow> string \<Rightarrow> bool" where
  "boundary pw s \<longleftrightarrow> pw \<noteq> (case s of [] \<Rightarrow> False | c # _ \<Rightarrow> is_word c)"

definition match_title :: "bool \<Rightarrow> string \<Rightarrow> string option" where
  "match_title pw s =
     (if boundary pw s
      then List.find (\<lambda>t. take (length t) s = t \<and> boundary True (drop (length t) s)) titles
      else None)"

function sub_titles :: "bool \<Rightarrow> string \<Rightarrow> string" where
  "sub_titles pw [] = []"
| "sub_titles pw (c # cs) =
     (case match_title pw (c # cs) of
        Some t \<Rightarrow> sub_titles True (drop (length t) (c # cs))
      | None \<Rightarrow> c # sub_titles (is_word c) cs)"
  by pat_completeness auto

text \<open>\<open>re.sub(r'[^a-z0-9\s]', ' ', s)\<close>\<close>

definition sub_nonalnum :: "string \<Rightarrow> string" where
  "sub_nonalnum s = map (\<lambda>c. if is_az09 c \<or> is_space c then c else CHR '' '') s"

text \<open>
  \<open>re.sub(r'\s+', ' ', s)\<close>: each maximal run of whitespace becomes one space. The flag
  says whether the scan is inside a run.
\<close>

fun sub_ws :: "bool \<Rightarrow> string \<Rightarrow> string" where
  "sub_ws inrun [] = []"
| "sub_ws inrun (c # cs) =
     (if is_space c
      then (if inrun then sub_ws True cs else CHR '' '' # sub_ws True cs)
      else c # sub_ws False cs)"

text \<open>
  \<open>re.split(r'\s+', s)\<close>: the pieces between maximal runs of whitespace, with an empty
  piece before a leading run and after a trailing one.
\<close>

fun re_split_ws :: "bool \<Rightarrow> string \<Rightarrow> string list" where
  "re_split_ws inrun [] = [[]]"
| "re_split_ws inrun (c # cs) =
     (if is_space c
      then (if inrun then re_split_ws True cs else [] # re_split_ws True cs)
      else (case re_split_ws False cs of
              [] \<Rightarrow> [[c]]
            | t # ts \<Rightarrow> (c # t) # ts))"

termination sub_titles
proof (relation "measure (\<lambda>(pw, s). length s)")
  show "wf (measure (\<lambda>(pw, s). length s))"
    by simp
next
  fix pw :: bool and c :: char and cs t :: string
  assume "match_title pw (c # cs) = Some t"
  then have "t \<in> set titles"
    by (auto simp: match_title_def find_Some_iff split: if_splits)
  then have "0 < length t"
    by (auto simp: titles_def)
  then show "((True, drop (length t) (c # cs)), (pw, c # cs)) \<in> measure (\<lambda>(pw, s). length s)"
    by simp
next
  fix pw :: bool and c :: char and cs :: string
  show "((is_word c, cs), (pw, c # cs)) \<in> measure (\<lambda>(pw, s). length s)"
    by simp
qed

definition normalize_name :: "string \<Rightarrow> string" where
  "normalize_name s =
     (let s1 = strip (lower s);
          s2 = sub_punct s1;
          s3 = sub_titles False s2;
          s4 = sub_nonalnum s3
      in strip (sub_ws False s4))"

definition normalize_phone :: "string \<Rightarrow> string" where
  "normalize_phone s = filter is_digit s"

definition name_tokens :: "string \<Rightarrow> string list" where
  "name_tokens s = filter (\<lambda>t. t \<noteq> []) (re_split_ws False s)"

definition last_name_prefix :: "string \<Rightarrow> nat \<Rightarrow> string" where
  "last_name_prefix s n =
     (let toks = name_tokens s in if toks \<noteq> [] then take n (last toks) else [])"

text \<open>
  \<open>SequenceMatcher(None, a, b).ratio()\<close> is \<open>difflib\<close>'s, not this program's: it is the
  parameter \<open>sm\<close> of everything that scores.
\<close>

definition seq_ratio :: "(string \<Rightarrow> string \<Rightarrow> real) \<Rightarrow> string \<Rightarrow> string \<Rightarrow> real" where
  "seq_ratio sm a b = (if a = [] \<and> b = [] then 1 else sm a b)"

definition token_overlap :: "string \<Rightarrow> string \<Rightarrow> real" where
  "token_overlap a b =
     (let sa = set (name_tokens a); sb = set (name_tokens b) in
      if sa = {} \<and> sb = {} then 1
      else (let inter = sa \<inter> sb; uni = sa \<union> sb in
            if uni \<noteq> {} then real (card inter) / real (card uni) else 0))"

definition phone_last4 :: "string \<Rightarrow> string" where
  "phone_last4 s = (if length s \<ge> 4 then drop (length s - 4) s else [])"

section \<open>The roster\<close>

text \<open>
  A row of the input table, after \<open>fillna('')\<close>: every column is a string (the callers
  read the table with \<open>dtype=str\<close>, and \<open>astype(str)\<close> leaves a string as it is). The
  table is a list of rows and its index is the default one: row \<open>i\<close> has label \<open>i\<close>, so
  \<open>idx = [0, ..., n - 1]\<close> and \<open>index_to_pos\<close> is the identity.
\<close>

record provider =
  provider_id :: string
  full_name :: string
  npi :: string
  license_number :: string
  license_state :: string
  practice_phone :: string
  practice_address_line1 :: string
  practice_city :: string
  practice_state :: string
  practice_zip :: string
  taxonomy_code :: string

text \<open>The columns \<open>dedupe\<close> adds (the column \<open>phone_last4\<close> is \<open>phone_last4_c\<close> here).\<close>

record nprovider = provider +
  name_norm :: string
  npi_norm :: string
  license_norm :: string
  license_state_norm :: string
  phone_norm :: string
  phone_last4_c :: string
  last_pref :: string
  tax_norm :: string
  addr_norm :: string

definition derive :: "provider \<Rightarrow> nprovider" where
  "derive r =
     (let name = normalize_name (full_name r);
          phone = normalize_phone (practice_phone r)
      in provider.extend r (nprovider.fields
           name
           (strip (npi r))
           (upper (strip (license_number r)))
           (upper (strip (license_state r)))
           phone
           (phone_last4 phone)
           (last_name_prefix name 4)
           (upper (strip (taxonomy_code r)))
           (strip (sub_ws False (sub_nonalnum (lower
              (practice_address_line1 r @ '' '' @ practice_city r @ '' '' @
               practice_state r @ '' '' @ practice_zip r)))))))"

section \<open>Blocking\<close>

text \<open>
  A \<open>defaultdict(list)\<close> is an association list in insertion order:
  \<open>d[k].append(i)\<close> is \<open>dict_append d k i\<close>.
\<close>

fun dict_append :: "('k \<times> 'v list) list \<Rightarrow> 'k \<Rightarrow> 'v \<Rightarrow> ('k \<times> 'v list) list" where
  "dict_append [] k i = [(k, [i])]"
| "dict_append ((k', v) # d) k i =
     (if k' = k then (k', v @ [i]) # d else (k', v) # dict_append d k i)"

text \<open>The keys a row files its index under, in the order of the five \<open>if\<close> statements.\<close>

definition block_keys :: "nprovider \<Rightarrow> string list" where
  "block_keys r =
     (if npi_norm r \<noteq> [] \<and> npi_norm r \<noteq> ''nan''
      then [''NPI::'' @ npi_norm r] else []) @
     (if license_norm r \<noteq> [] \<and> license_state_norm r \<noteq> [] \<and> license_norm r \<noteq> ''nan''
      then [''LIC::'' @ license_state_norm r @ ''::'' @ license_norm r] else []) @
     (if last_pref r \<noteq> [] then [''LNP::'' @ last_pref r] else []) @
     (if phone_last4_c r \<noteq> [] then [''PH4::'' @ phone_last4_c r] else []) @
     (if tax_norm r \<noteq> [] then [''TAX::'' @ tax_norm r] else [])"

definition build_blocks :: "nprovider list \<Rightarrow> (string \<times> nat list) list" where
  "build_blocks roster =
     fold (\<lambda>i blocks. fold (\<lambda>k b. dict_append b k i) (block_keys (roster ! i)) blocks)
       [0..<length roster] []"

text \<open>\<open>itertools.combinations(xs, 2)\<close>\<close>

fun combinations2 :: "'a list \<Rightarrow> ('a \<times> 'a) list" where
  "combinations2 [] = []"
| "combinations2 (x # xs) = map (Pair x) xs @ combinations2 xs"

text \<open>
  The set \<open>candidates\<close>, as a list without repetitions. Python iterates over a set in an
  order of its own; what depends on the order is stated for every order.
\<close>

definition candidate_pairs :: "(string \<times> nat list) list \<Rightarrow> (nat \<times> nat) list" where
  "candidate_pairs blocks =
     remdups (concat (map (\<lambda>(k, v). if length v > 1 then combinations2 (sort (remdups v)) else [])
                          blocks))"

section \<open>Scoring\<close>

definition npi_eq :: "nprovider \<Rightarrow> nprovider \<Rightarrow> bool" where
  "npi_eq ra rb \<longleftrightarrow> npi_norm ra \<noteq> [] \<and> npi_norm rb \<noteq> [] \<and> npi_norm ra = npi_norm rb"

definition lic_eq :: "nprovider \<Rightarrow> nprovider \<Rightarrow> bool" where
  "lic_eq ra rb \<longleftrightarrow>
     license_norm ra \<noteq> [] \<and> license_norm rb \<noteq> [] \<and>
     license_state_norm ra \<noteq> [] \<and> license_state_norm rb \<noteq> [] \<and>
     license_state_norm ra = license_state_norm rb \<and> license_norm ra = license_norm rb"

definition ph4_eq :: "nprovider \<Rightarrow> nprovider \<Rightarrow> bool" where
  "ph4_eq ra rb \<longleftrightarrow>
     phone_last4_c ra \<noteq> [] \<and> phone_last4_c rb \<noteq> [] \<and> phone_last4_c ra = phone_last4_c rb"

definition tax_eq :: "nprovider \<Rightarrow> nprovider \<Rightarrow> bool" where
  "tax_eq ra rb \<longleftrightarrow> tax_norm ra \<noteq> [] \<and> tax_norm rb \<noteq> [] \<and> tax_norm ra = tax_norm rb"

definition npi_conflict :: "nprovider \<Rightarrow> nprovider \<Rightarrow> bool" where
  "npi_conflict ra rb \<longleftrightarrow>
     npi_norm ra \<noteq> [] \<and> npi_norm rb \<noteq> [] \<and> npi_norm ra \<noteq> npi_norm rb \<and>
     npi_norm ra \<noteq> ''nan'' \<and> npi_norm rb \<noteq> ''nan''"

text \<open>
  The body of the scoring loop: the score and the reasons of one pair. Scores are real
  numbers here; the rounding of Python's floats is not modelled, and the three rounded
  columns \<open>name_sim\<close>, \<open>tok_ov\<close>, \<open>addr_ov\<close> of the pairs table are left out.
\<close>

definition score_pair ::
  "(string \<Rightarrow> string \<Rightarrow> real) \<Rightarrow> nprovider \<Rightarrow> nprovider \<Rightarrow> real \<times> string list" where
  "score_pair sm ra rb =
     (let (score, reasons) = (0, []);
          (score, reasons) = (if npi_eq ra rb then (score + 6, reasons @ [''npi_eq''])
                              else (score, reasons));
          (score, reasons) = (if lic_eq ra rb then (score + 5, reasons @ [''lic_eq''])
                              else (score, reasons));
          name_sim = seq_ratio sm (name_norm ra) (name_norm rb);
          score = score + name_sim * 3;
          tok_ov = token_overlap (name_norm ra) (name_norm rb);
          score = score + tok_ov * 1;
          (score, reasons) = (if ph4_eq ra rb then (score + 15 / 10, reasons @ [''ph4_eq''])
                              else (score, reasons));
          addr_ov = token_overlap (addr_norm ra) (addr_norm rb);
          score = score + addr_ov * (8 / 10);
          score = (if tax_eq ra rb then score + 6 / 10 else score);
          (score, reasons) = (if npi_conflict ra rb
                              then (score - 4, reasons @ [''npi_conflict''])
                              else (score, reasons))
      in (score, reasons))"

datatype py_error = KeyError string | IndexError | NoResult

record pair_row =
  idx_a :: nat
  idx_b :: nat
  score :: real
  reasons :: "string list"

record classified_row = pair_row +
  match_class :: string

text \<open>
  The loop \<open>for a,b in candidates\<close> has no \<open>try\<close>: an exception raised by its body leaves
  the loop and \<open>dedupe\<close>. The loop is written over any body that returns a row or raises.
\<close>

fun score_pairs :: "(nat \<times> nat \<Rightarrow> py_error + 'r) \<Rightarrow> (nat \<times> nat) list \<Rightarrow> py_error + 'r list" where
  "score_pairs body [] = Inr []"
| "score_pairs body (p # ps) =
     (case body p of
        Inl e \<Rightarrow> Inl e
      | Inr r \<Rightarrow> (case score_pairs body ps of
                   Inl e \<Rightarrow> Inl e
                 | Inr rs \<Rightarrow> Inr (r # rs)))"

text \<open>The body \<open>dedupe\<close> runs: on string columns none of its steps raises.\<close>

definition pair_body ::
  "(string \<Rightarrow> string \<Rightarrow> real) \<Rightarrow> nprovider list \<Rightarrow> nat \<times> nat \<Rightarrow> py_error + pair_row" where
  "pair_body sm roster = (\<lambda>(a, b).
     (let ra = roster ! a; rb = roster ! b;
          (s, rs) = score_pair sm ra rb
      in Inr \<lparr>idx_a = a, idx_b = b, score = s, reasons = rs\<rparr>))"

definition classify :: "real \<Rightarrow> real \<Rightarrow> real \<Rightarrow> string" where
  "classify threshold_definite threshold_possible s =
     (if s \<ge> threshold_definite then ''definite''
      else (if s \<ge> threshold_possible then ''possible'' else ''nonmatch''))"

text \<open>
  \<open>pd.DataFrame(pair_data).sort_values('score', ascending=False)\<close> and the column
  \<open>match_class\<close>. A frame built from the empty list has no column \<open>score\<close>, and sorting
  by it raises \<open>KeyError\<close>. The order of rows with equal scores is pandas' choice.
\<close>

definition pairs_table ::
  "real \<Rightarrow> real \<Rightarrow> pair_row list \<Rightarrow> py_error + classified_row list" where
  "pairs_table threshold_definite threshold_possible pair_data =
     (if pair_data = [] then Inl (KeyError ''score'')
      else Inr (map (\<lambda>r. pair_row.extend r
                       (classified_row.fields
                          (classify threshold_definite threshold_possible (score r))))
                    (sort_key (\<lambda>r. - score r) pair_data)))"

definition definite_pairs :: "classified_row list \<Rightarrow> (nat \<times> nat) list" where
  "definite_pairs pairs_df =
     map (\<lambda>r. (idx_a r, idx_b r)) (filter (\<lambda>r. match_class r = ''definite'') pairs_df)"

section \<open>Union-find\<close>

text \<open>
  The class \<open>UF\<close> has the one field \<open>p\<close>, the parent array; the state of an instance is
  that list, passed in and returned. \<open>find\<close> recurses along the parents and writes the
  root into every entry on its way back. Its result is \<open>None\<close> when Python returns no
  value: on an index outside the array, and where the recursion would not end. Python's
  bound on the depth of recursion is not modelled.
\<close>

definition uf_init :: "nat \<Rightarrow> nat list" where
  "uf_init n = [0..<n]"

partial_function (option) uf_find :: "nat list \<Rightarrow> nat \<Rightarrow> (nat list \<times> nat) option" where
  "uf_find p x =
     (if x < length p
      then (if p ! x \<noteq> x
            then Option.bind (uf_find p (p ! x)) (\<lambda>(p', r). Some (p'[x := r], r))
            else Some (p, x))
      else None)"

declare uf_find.simps [code]

definition uf_union :: "nat list \<Rightarrow> nat \<Rightarrow> nat \<Rightarrow> nat list option" where
  "uf_union p a b =
     Option.bind (uf_find p a) (\<lambda>(p1, ra).
     Option.bind (uf_find p1 b) (\<lambda>(p2, rb).
       if ra \<noteq> rb then Some (p2[rb := ra]) else Some p2))"

section \<open>Clustering and the canonical identifier\<close>

text \<open>The loop over the definite rows: one \<open>union\<close> for each, in the order of the table.\<close>

fun union_all :: "nat list \<Rightarrow> (nat \<times> nat) list \<Rightarrow> nat list option" where
  "union_all p [] = Some p"
| "union_all p ((a, b) # ps) = Option.bind (uf_union p a b) (\<lambda>p'. union_all p' ps)"

text \<open>\<open>for i in range(len(idx)): clusters[uf.find(i)].append(idx[i])\<close>\<close>

fun build_clusters ::
  "nat list \<Rightarrow> nat list \<Rightarrow> (nat \<times> nat list) list \<Rightarrow> (nat list \<times> (nat \<times> nat list) list) option" where
  "build_clusters p [] clusters = Some (p, clusters)"
| "build_clusters p (i # js) clusters =
     Option.bind (uf_find p i) (\<lambda>(p', r). build_clusters p' js (dict_append clusters r i))"

definition cluster_records ::
  "nat \<Rightarrow> (nat \<times> nat) list \<Rightarrow> (nat list \<times> (nat \<times> nat list) list) option" where
  "cluster_records n defs =
     Option.bind (union_all (uf_init n) defs) (\<lambda>p. build_clusters p [0..<n] [])"

text \<open>
  The loop over \<open>clusters.items()\<close> that fills \<open>record_to_cluster\<close>: \<open>pid i\<close> is
  \<open>roster.loc[i]['provider_id']\<close>, and \<open>sorted(cand_ids)[0]\<close> raises on an empty list.
\<close>

fun build_mapping ::
  "(nat \<Rightarrow> string) \<Rightarrow> (nat \<times> nat list) list \<Rightarrow> (nat \<rightharpoonup> string) \<Rightarrow> py_error + (nat \<rightharpoonup> string)" where
  "build_mapping pid [] rtc = Inr rtc"
| "build_mapping pid ((rt, members) # clusters) rtc =
     (if length members = 1
      then build_mapping pid clusters (rtc(members ! 0 \<mapsto> pid (members ! 0)))
      else (let cand_ids = map pid members in
            case sort cand_ids of
              [] \<Rightarrow> Inl IndexError
            | canonical # _ \<Rightarrow>
                build_mapping pid clusters (fold (\<lambda>m r. r(m \<mapsto> canonical)) members rtc)))"

definition record_to_cluster ::
  "(nat \<Rightarrow> string) \<Rightarrow> nat \<Rightarrow> (nat \<times> nat list) list \<Rightarrow> py_error + (nat \<rightharpoonup> string)" where
  "record_to_cluster pid n clusters =
     (case build_mapping pid clusters Map.empty of
        Inl e \<Rightarrow> Inl e
      | Inr rtc \<Rightarrow> Inr (fold (\<lambda>i r. if r i = None then r(i \<mapsto> pid i) else r) [0..<n] rtc))"

text \<open>The column \<open>dedup_cluster_id\<close>.\<close>

definition cluster_id_column :: "(nat \<Rightarrow> string) \<Rightarrow> nat \<Rightarrow> (nat \<rightharpoonup> string) \<Rightarrow> string list" where
  "cluster_id_column pid n rtc = map (\<lambda>x. case rtc x of Some c \<Rightarrow> c | None \<Rightarrow> pid x) [0..<n]"

text \<open>
  The last part of \<open>dedupe\<close>, from the definite pairs to the clusters and the column
  \<open>dedup_cluster_id\<close>.
\<close>

definition canonical_ids ::
  "(nat \<Rightarrow> string) \<Rightarrow> nat \<Rightarrow> (nat \<times> nat) list \<Rightarrow>
   py_error + ((nat \<times> nat list) list \<times> string list)" where
  "canonical_ids pid n defs =
     (case cluster_records n defs of
        None \<Rightarrow> Inl NoResult
      | Some (p, clusters) \<Rightarrow>
          (case record_to_cluster pid n clusters of
             Inl e \<Rightarrow> Inl e
           | Inr rtc \<Rightarrow> Inr (clusters, cluster_id_column pid n rtc)))"

section \<open>dedupe\<close>

record dprovider = nprovider +
  dedup_cluster_id :: string

text \<open>
  \<open>dedupe\<close> returns the pairs table, the roster with its new columns, and the clusters of
  more than one record. Writing the two files and printing are not modelled. The function
  is written over the body of its scoring loop, so that what an exception in that body
  does to the run can be stated; \<open>dedupe\<close> itself runs \<open>pair_body\<close>.
\<close>

definition dedupe_with ::
  "(nprovider list \<Rightarrow> nat \<times> nat \<Rightarrow> py_error + pair_row) \<Rightarrow> real \<Rightarrow> real \<Rightarrow> provider list \<Rightarrow>
   py_error + (classified_row list \<times> dprovider list \<times> nat list list)" where
  "dedupe_with body threshold_definite threshold_possible roster_df =
     (let roster = map derive roster_df;
          n = length roster;
          pid = (\<lambda>i. provider_id (roster ! i));
          candidates = candidate_pairs (build_blocks roster)
      in case score_pairs (body roster) candidates of
           Inl e \<Rightarrow> Inl e
         | Inr pair_data \<Rightarrow>
        (case pairs_table threshold_definite threshold_possible pair_data of
           Inl e \<Rightarrow> Inl e
         | Inr pairs_df \<Rightarrow>
        (case canonical_ids pid n (definite_pairs pairs_df) of
           Inl e \<Rightarrow> Inl e
         | Inr (clusters, ids) \<Rightarrow>
             Inr (pairs_df,
                  map (\<lambda>(r, c). nprovider.extend r (dprovider.fields c)) (zip roster ids),
                  map snd (filter (\<lambda>(rt, c). length c > 1) clusters)))))"

definition dedupe ::
  "(string \<Rightarrow> string \<Rightarrow> real) \<Rightarrow> real \<Rightarrow> real \<Rightarrow> provider list \<Rightarrow>
   py_error + (classified_row list \<times> dprovider list \<times> nat list list)" where
  "dedupe sm threshold_definite threshold_possible roster_df =
     dedupe_with (pair_body sm) threshold_definite threshold_possible roster_df"

section \<open>Specification notions\<close>

text \<open>
  \<open>root_of p x r\<close>: following the parents from \<open>x\<close> in the array \<open>p\<close> ends at the root
  \<open>r\<close>. An array is well formed when every index has a root. Two indices are related by
  \<open>uf_rel p\<close> when they have the same root, and by \<open>linked n E\<close> when a chain of pairs of
  \<open>E\<close>, read in either direction, leads from one to the other.
\<close>

inductive root_of :: "nat list \<Rightarrow> nat \<Rightarrow> nat \<Rightarrow> bool" for p :: "nat list" where
  root_self: "x < length p \<Longrightarrow> p ! x = x \<Longrightarrow> root_of p x x"
| root_step: "x < length p \<Longrightarrow> p ! x \<noteq> x \<Longrightarrow> root_of p (p ! x) r \<Longrightarrow> root_of p x r"

definition uf_inv :: "nat list \<Rightarrow> bool" where
  "uf_inv p \<longleftrightarrow> (\<forall>x < length p. \<exists>r. root_of p x r)"

definition uf_rel :: "nat list \<Rightarrow> (nat \<times> nat) set" where
  "uf_rel p = {(x, y). \<exists>r. root_of p x r \<and> root_of p y r}"

definition linked :: "nat \<Rightarrow> (nat \<times> nat) set \<Rightarrow> (nat \<times> nat) set" where
  "linked n E = {(x, y). x < n \<and> y < n \<and> (x, y) \<in> (E \<union> E\<inverse>)\<^sup>*}"

text \<open>
  What the clustering of \<open>n\<close> records along the pairs \<open>E\<close> has to deliver: an array \<open>p\<close> in
  which \<open>rf i\<close> is the root of \<open>i\<close>, two records with the same root exactly when they are
  linked, one cluster for each root with its members in increasing order, and for every
  record the least \<open>pid\<close> among the records linked to it.
\<close>

definition clustered ::
  "nat \<Rightarrow> (nat \<times> nat) set \<Rightarrow> (nat \<Rightarrow> string) \<Rightarrow> nat list \<Rightarrow> (nat \<times> nat list) list \<Rightarrow>
   (nat \<Rightarrow> nat) \<Rightarrow> string list \<Rightarrow> bool" where
  "clustered n E pid p cl rf ids \<longleftrightarrow>
     length p = n \<and> length ids = n \<and>
     (\<forall>i < n. root_of p i (rf i)) \<and>
     (\<forall>i < n. \<forall>j < n. rf i = rf j \<longleftrightarrow> (i, j) \<in> linked n E) \<and>
     (\<forall>k v. (k, v) \<in> set cl \<longleftrightarrow> v = filter (\<lambda>i. rf i = k) [0..<n] \<and> v \<noteq> []) \<and>
     (\<forall>i < n. ids ! i = Min (pid ` {j. j < n \<and> (i, j) \<in> linked n E}))"

text \<open>The row of the pairs table for a candidate pair.\<close>

definition table_row ::
  "(string \<Rightarrow> string \<Rightarrow> real) \<Rightarrow> real \<Rightarrow> real \<Rightarrow> nprovider list \<Rightarrow> nat \<times> nat \<Rightarrow> classified_row" where
  "table_row sm td tp roster = (\<lambda>(a, b).
     \<lparr>idx_a = a, idx_b = b,
      score = fst (score_pair sm (roster ! a) (roster ! b)),
      reasons = snd (score_pair sm (roster ! a) (roster ! b)),
      match_class = classify td tp (fst (score_pair sm (roster ! a) (roster ! b)))\<rparr>)"

section \<open>Example data\<close>

text \<open>
  Rows and a similarity ratio to run the definitions on: \<open>ratio_eq\<close> is 1 on equal strings
  and 0 otherwise, which is what \<open>SequenceMatcher.ratio\<close> returns on equal short strings
  and on strings with no character in common.
\<close>

definition example_row ::
  "string \<Rightarrow> string \<Rightarrow> string \<Rightarrow> string \<Rightarrow> string \<Rightarrow> string \<Rightarrow> string \<Rightarrow> string \<Rightarrow> provider" where
  "example_row pid name npi_v lic_no lic_st phone addr tax =
     \<lparr>provider_id = pid, full_name = name, npi = npi_v, license_number = lic_no,
      license_state = lic_st, practice_phone = phone, practice_address_line1 = addr,
      practice_city = [], practice_state = [], practice_zip = [], taxonomy_code = tax\<rparr>"

definition ratio_eq :: "string \<Rightarrow> string \<Rightarrow> real" where
  "ratio_eq a b = (if a = b then 1 else 0)"

text \<open>Two rows whose license state and number differ and whose license keys are equal.\<close>

definition colliding_roster :: "provider list" where
  "colliding_roster =
     [example_row ''P1'' [] [] ''C'' ''A::B'' [] [] [],
      example_row ''P2'' [] [] ''B::C'' ''A'' [] [] []]"

text \<open>Three records: the first two share an NPI, the last two a license and a phone.\<close>

definition chain_roster :: "provider list" where
  "chain_roster =
     [example_row ''P3'' ''Ann Lee'' ''111'' [] [] [] [] [],
      example_row ''P1'' ''Ann Lee'' ''111'' ''5'' ''CA'' ''555-1234'' [] [],
      example_row ''P2'' ''Bob Ray'' [] ''5'' ''CA'' ''555-1234'' [] []]"

text \<open>Scenario 1 of the specification.\<close>

definition scenario1_roster :: "provider list" where
  "scenario1_roster =
     [example_row ''P1'' ''John A Smith MD'' ''1234567890'' ''000111'' ''CA'' [] [] [],
      example_row ''P2'' ''john smith'' ''1234567890'' ''000111'' ''CA'' [] [] []]"

text \<open>Pairs of records for the scenarios of the scoring claims.\<close>

definition conflict_roster :: "provider list" where
  "conflict_roster =
     [example_row ''P2'' ''John Smith'' ''123'' [] [] [] ''1 Main St'' [],
      example_row ''P1'' ''john smith'' ''456'' [] [] [] ''1 main st'' []]"

definition nan_conflict_roster :: "provider list" where
  "nan_conflict_roster =
     [example_row ''P2'' ''John Smith'' ''nan'' [] [] [] ''1 Main St'' [],
      example_row ''P1'' ''john smith'' ''456'' [] [] [] ''1 main st'' []]"

definition phone_roster :: "provider list" where
  "phone_roster =
     [example_row ''P2'' [] [] [] [] ''555-1234'' [] [],
      example_row ''P1'' [] [] [] [] ''(1) 1234'' [] []]"

definition phone_conflict_roster :: "provider list" where
  "phone_conflict_roster =
     [example_row ''P2'' [] ''111'' [] [] ''555-1234'' [] [],
      example_row ''P1'' [] ''222'' [] [] ''(1) 1234'' [] []]"

definition nan_roster :: "provider list" where
  "nan_roster =
     [example_row ''P1'' ''Ann Lee'' ''nan'' [] [] ''555-1234'' [] [],
      example_row ''P2'' ''Bob Ray'' ''nan'' [] [] ''555-1234'' [] []]"


section \<open>The score of a pair\<close>

lemma score_pair_fst:
  "fst (score_pair sm ra rb) =
     (if npi_eq ra rb then 6 else 0) + (if lic_eq ra rb then 5 else 0) +
     seq_ratio sm (name_norm ra) (name_norm rb) * 3 +
     token_overlap (name_norm ra) (name_norm rb) +
     (if ph4_eq ra rb then 15 / 10 else 0) +
     token_overlap (addr_norm ra) (addr_norm rb) * (8 / 10) +
     (if tax_eq ra rb then 6 / 10 else 0) -
     (if npi_conflict ra rb then 4 else 0)"
  by (simp add: score_pair_def Let_def)

lemma score_pair_snd:
  "snd (score_pair sm ra rb) =
     (if npi_eq ra rb then [''npi_eq''] else []) @
     (if lic_eq ra rb then [''lic_eq''] else []) @
     (if ph4_eq ra rb then [''ph4_eq''] else []) @
     (if npi_conflict ra rb then [''npi_conflict''] else [])"
  by (simp add: score_pair_def Let_def)

lemma token_overlap_nonneg: "0 \<le> token_overlap a b"
  by (simp add: token_overlap_def Let_def)

lemma token_overlap_le_1: "token_overlap a b \<le> 1"
proof -
  have "card (set (name_tokens a) \<inter> set (name_tokens b))
        \<le> card (set (name_tokens a) \<union> set (name_tokens b))"
    by (rule card_mono) auto
  then show ?thesis
    by (auto simp: token_overlap_def Let_def divide_le_eq_1 card_gt_0_iff)
qed

lemma token_overlap_same:
  assumes "set (name_tokens a) = set (name_tokens b)"
  shows "token_overlap a b = 1"
  using assms by (simp add: token_overlap_def Let_def)

text \<open>
  C8. The score is monotone in its positive signals: when every bonus that applied still
  applies, the three similarity values do not decrease and the NPI-conflict penalty is
  not newly incurred, the score does not decrease. Raising a single signal with the
  others fixed is the special case in which all other hypotheses hold with equality.
\<close>

theorem score_monotone:
  assumes "npi_eq ra rb \<longrightarrow> npi_eq ra' rb'"
    and "lic_eq ra rb \<longrightarrow> lic_eq ra' rb'"
    and "ph4_eq ra rb \<longrightarrow> ph4_eq ra' rb'"
    and "tax_eq ra rb \<longrightarrow> tax_eq ra' rb'"
    and "npi_conflict ra' rb' \<longrightarrow> npi_conflict ra rb"
    and "seq_ratio sm (name_norm ra) (name_norm rb)
         \<le> seq_ratio sm' (name_norm ra') (name_norm rb')"
    and "token_overlap (name_norm ra) (name_norm rb)
         \<le> token_overlap (name_norm ra') (name_norm rb')"
    and "token_overlap (addr_norm ra) (addr_norm rb)
         \<le> token_overlap (addr_norm ra') (addr_norm rb')"
  shows "fst (score_pair sm ra rb) \<le> fst (score_pair sm' ra' rb')"
  using assms unfolding score_pair_fst by (auto split: if_splits)

section \<open>Union-find and clustering\<close>

lemma root_of_fun: "root_of p x r \<Longrightarrow> root_of p x r' \<Longrightarrow> r = r'"
proof (induction arbitrary: r' rule: root_of.induct)
  case (root_self x)
  from root_self.prems root_self.hyps show ?case
    by (cases rule: root_of.cases) auto
next
  case (root_step x r)
  from root_step.prems root_step.hyps(2) have "root_of p (p ! x) r'"
    by (cases rule: root_of.cases) auto
  then show ?case
    by (rule root_step.IH)
qed

lemma root_of_lt: "root_of p x r \<Longrightarrow> x < length p"
  by (cases rule: root_of.cases) auto

lemma root_of_root: "root_of p x r \<Longrightarrow> r < length p \<and> p ! r = r"
  by (induction rule: root_of.induct) auto

lemma root_of_root_self: "root_of p x r \<Longrightarrow> root_of p r r"
  using root_of_root root_self by blast

lemma root_of_fixed: "root_of p r s \<Longrightarrow> p ! r = r \<Longrightarrow> s = r"
  by (cases rule: root_of.cases) auto

lemma root_of_compress:
  assumes "root_of p x r" and "root_of p y s"
  shows "root_of (p[x := r]) y s"
  using assms(2)
proof (induction rule: root_of.induct)
  case (root_self y)
  show ?case
  proof (cases "y = x")
    case True
    with root_self assms(1) have "r = x"
      using root_of_fixed by blast
    with True root_self show ?thesis
      by (auto intro: root_of.root_self)
  next
    case False
    with root_self show ?thesis
      by (auto intro: root_of.root_self)
  qed
next
  case (root_step y s)
  show ?case
  proof (cases "y = x")
    case True
    have "root_of p x s"
      using root_step.hyps True by (auto intro: root_of.root_step)
    with assms(1) have sr: "s = r"
      using root_of_fun by blast
    have rr: "r < length p" "p ! r = r"
      using root_of_root[OF assms(1)] by auto
    with root_step.hyps True have "r \<noteq> x"
      by auto
    with rr have "root_of (p[x := r]) r r"
      by (auto intro: root_of.root_self)
    with True sr root_step.hyps \<open>r \<noteq> x\<close> show ?thesis
      by (auto intro: root_of.root_step)
  next
    case False
    with root_step show ?thesis
      by (auto intro: root_of.root_step)
  qed
qed

lemma uf_find_root:
  assumes "root_of p x r"
  shows "\<exists>p'. uf_find p x = Some (p', r) \<and> length p' = length p \<and>
              (\<forall>y s. root_of p y s \<longrightarrow> root_of p' y s)"
  using assms
proof (induction rule: root_of.induct)
  case (root_self x)
  then show ?case
    by (subst uf_find.simps) simp
next
  case (root_step x r)
  then obtain p1 where p1: "uf_find p (p ! x) = Some (p1, r)" "length p1 = length p"
    "\<forall>y s. root_of p y s \<longrightarrow> root_of p1 y s"
    by blast
  have "root_of p x r"
    using root_step.hyps by (auto intro: root_of.root_step)
  with p1(3) have x1: "root_of p1 x r"
    by blast
  have "uf_find p x = Some (p1[x := r], r)"
    using root_step.hyps(1,2) p1(1) by (subst uf_find.simps) simp
  moreover have "\<forall>y s. root_of p y s \<longrightarrow> root_of (p1[x := r]) y s"
    using p1(3) root_of_compress[OF x1] by blast
  ultimately show ?case
    using p1(2) by simp
qed

lemma root_of_link:
  assumes ra: "root_of p ra ra" and rb: "root_of p rb rb" and ne: "ra \<noteq> rb"
    and y: "root_of p y s"
  shows "root_of (p[rb := ra]) y (if s = rb then ra else s)"
  using y
proof (induction rule: root_of.induct)
  case (root_self y)
  have a: "ra < length p" "p ! ra = ra"
    using root_of_root[OF ra] by auto
  show ?case
  proof (cases "y = rb")
    case True
    have "root_of (p[rb := ra]) ra ra"
      using a ne by (auto intro: root_of.root_self)
    with True root_self ne show ?thesis
      by (auto intro: root_of.root_step)
  next
    case False
    with root_self show ?thesis
      by (auto intro: root_of.root_self)
  qed
next
  case (root_step y s)
  have "p ! rb = rb"
    using root_of_root[OF rb] by simp
  with root_step.hyps have "y \<noteq> rb"
    by auto
  with root_step show ?case
    by (auto intro: root_of.root_step)
qed

lemma root_of_init: "root_of (uf_init n) x r \<longleftrightarrow> x < n \<and> r = x"
proof
  assume "root_of (uf_init n) x r"
  then show "x < n \<and> r = x"
    by (cases rule: root_of.cases) (auto simp: uf_init_def)
next
  assume "x < n \<and> r = x"
  then show "root_of (uf_init n) x r"
    by (auto simp: uf_init_def intro: root_self)
qed

lemma length_uf_init: "length (uf_init n) = n"
  by (simp add: uf_init_def)

lemma uf_inv_init: "uf_inv (uf_init n)"
  by (simp add: uf_inv_def root_of_init length_uf_init)

text \<open>A step that keeps every root keeps the invariant and the relation.\<close>

lemma roots_kept_iff:
  assumes inv: "uf_inv p" and len: "length p' = length p"
    and kept: "\<forall>y s. root_of p y s \<longrightarrow> root_of p' y s"
  shows "root_of p' y s \<longleftrightarrow> root_of p y s"
proof
  assume a: "root_of p' y s"
  then have "y < length p"
    using root_of_lt len by fastforce
  with inv obtain s' where s': "root_of p y s'"
    by (auto simp: uf_inv_def)
  with kept have "root_of p' y s'"
    by blast
  with a have "s' = s"
    using root_of_fun by blast
  with s' show "root_of p y s"
    by simp
qed (use kept in blast)

lemma roots_kept_inv:
  assumes "uf_inv p" and "length p' = length p"
    and "\<forall>y s. root_of p y s \<longrightarrow> root_of p' y s"
  shows "uf_inv p'"
  using assms unfolding uf_inv_def by metis

lemma roots_kept_rel:
  assumes "uf_inv p" and "length p' = length p"
    and "\<forall>y s. root_of p y s \<longrightarrow> root_of p' y s"
  shows "uf_rel p' = uf_rel p"
  using roots_kept_iff[OF assms] by (simp add: uf_rel_def)

lemma uf_find_ok:
  assumes "uf_inv p" and "x < length p"
  shows "\<exists>p' r. uf_find p x = Some (p', r) \<and> root_of p x r \<and> length p' = length p \<and>
           uf_inv p' \<and> (\<forall>y s. root_of p' y s \<longleftrightarrow> root_of p y s)"
proof -
  from assms obtain r where r: "root_of p x r"
    by (auto simp: uf_inv_def)
  from uf_find_root[OF r] obtain p' where p': "uf_find p x = Some (p', r)"
    "length p' = length p" "\<forall>y s. root_of p y s \<longrightarrow> root_of p' y s"
    by blast
  from roots_kept_iff[OF assms(1) p'(2,3)] roots_kept_inv[OF assms(1) p'(2,3)] r p'
  show ?thesis
    by blast
qed


lemma uf_rel_dom: "(x, y) \<in> uf_rel p \<Longrightarrow> x < length p \<and> y < length p"
  by (auto simp: uf_rel_def dest: root_of_lt)

lemma uf_rel_refl: "uf_inv p \<Longrightarrow> x < length p \<Longrightarrow> (x, x) \<in> uf_rel p"
  by (auto simp: uf_rel_def uf_inv_def)

lemma uf_rel_sym: "(x, y) \<in> uf_rel p \<Longrightarrow> (y, x) \<in> uf_rel p"
  by (auto simp: uf_rel_def)

lemma uf_rel_trans: "(x, y) \<in> uf_rel p \<Longrightarrow> (y, z) \<in> uf_rel p \<Longrightarrow> (x, z) \<in> uf_rel p"
  by (auto simp: uf_rel_def dest: root_of_fun)

lemma uf_rel_init: "uf_rel (uf_init n) = {(x, y). x < n \<and> y = x}"
  by (auto simp: uf_rel_def root_of_init)

text \<open>Linking the root of \<open>b\<close> under the root of \<open>a\<close>.\<close>

lemma link_ok:
  assumes inv: "uf_inv p" and ra: "root_of p a ra" and rb: "root_of p b rb" and ne: "ra \<noteq> rb"
  shows "uf_inv (p[rb := ra])"
    and "uf_rel (p[rb := ra]) =
           {(x, y). x < length p \<and> y < length p \<and> (x, y) \<in> (uf_rel p \<union> {(a, b), (b, a)})\<^sup>*}"
proof -
  let ?q = "p[rb := ra]"
  let ?f = "\<lambda>s. if s = rb then ra else s"
  have raa: "root_of p ra ra" and rbb: "root_of p rb rb"
    using ra rb root_of_root_self by blast+
  have fwd: "root_of ?q y (?f s)" if "root_of p y s" for y s
    using root_of_link[OF raa rbb ne that] .
  show invq: "uf_inv ?q"
    unfolding uf_inv_def
  proof (intro allI impI)
    fix x assume "x < length ?q"
    then obtain s where "root_of p x s"
      using inv by (auto simp: uf_inv_def)
    then show "\<exists>r. root_of ?q x r"
      using fwd by blast
  qed
  have bwd: "\<exists>s. root_of p y s \<and> t = ?f s" if "root_of ?q y t" for y t
  proof -
    from that have "y < length p"
      using root_of_lt by fastforce
    then obtain s where s: "root_of p y s"
      using inv by (auto simp: uf_inv_def)
    from fwd[OF s] that have "t = ?f s"
      using root_of_fun by blast
    with s show ?thesis
      by blast
  qed
  have ab: "(a, b) \<in> uf_rel ?q" "(b, a) \<in> uf_rel ?q"
    using fwd[OF ra] fwd[OF rb] by (auto simp: uf_rel_def)
  have sub: "uf_rel p \<subseteq> uf_rel ?q"
    using fwd by (fastforce simp: uf_rel_def)
  show "uf_rel ?q =
          {(x, y). x < length p \<and> y < length p \<and> (x, y) \<in> (uf_rel p \<union> {(a, b), (b, a)})\<^sup>*}"
  proof (intro equalityI subrelI)
    fix x y assume xy: "(x, y) \<in> uf_rel ?q"
    then obtain t where t: "root_of ?q x t" "root_of ?q y t"
      by (auto simp: uf_rel_def)
    from bwd[OF t(1)] bwd[OF t(2)] obtain sx sy where
      s: "root_of p x sx" "root_of p y sy" "?f sx = ?f sy"
      by auto
    have "(x, y) \<in> (uf_rel p \<union> {(a, b), (b, a)})\<^sup>*"
    proof (cases "sx = sy")
      case True
      with s have "(x, y) \<in> uf_rel p"
        by (auto simp: uf_rel_def)
      then show ?thesis
        by blast
    next
      case False
      with s(3) consider "sx = rb" "sy = ra" | "sx = ra" "sy = rb"
        by (auto split: if_splits)
      then show ?thesis
      proof cases
        case 1
        with s ra rb have "(x, b) \<in> uf_rel p" "(a, y) \<in> uf_rel p"
          by (auto simp: uf_rel_def)
        then have "(x, b) \<in> (uf_rel p \<union> {(a, b), (b, a)})\<^sup>*"
          "(b, a) \<in> (uf_rel p \<union> {(a, b), (b, a)})\<^sup>*"
          "(a, y) \<in> (uf_rel p \<union> {(a, b), (b, a)})\<^sup>*"
          by blast+
        then show ?thesis
          by (meson rtrancl_trans)
      next
        case 2
        with s ra rb have "(x, a) \<in> uf_rel p" "(b, y) \<in> uf_rel p"
          by (auto simp: uf_rel_def)
        then have "(x, a) \<in> (uf_rel p \<union> {(a, b), (b, a)})\<^sup>*"
          "(a, b) \<in> (uf_rel p \<union> {(a, b), (b, a)})\<^sup>*"
          "(b, y) \<in> (uf_rel p \<union> {(a, b), (b, a)})\<^sup>*"
          by blast+
        then show ?thesis
          by (meson rtrancl_trans)
      qed
    qed
    moreover from xy have "x < length p" "y < length p"
      using uf_rel_dom by fastforce+
    ultimately show "(x, y) \<in> {(x, y). x < length p \<and> y < length p \<and>
                                (x, y) \<in> (uf_rel p \<union> {(a, b), (b, a)})\<^sup>*}"
      by simp
  next
    fix x y
    assume "(x, y) \<in> {(x, y). x < length p \<and> y < length p \<and>
                                (x, y) \<in> (uf_rel p \<union> {(a, b), (b, a)})\<^sup>*}"
    then have x: "x < length p" and star: "(x, y) \<in> (uf_rel p \<union> {(a, b), (b, a)})\<^sup>*"
      by auto
    from star show "(x, y) \<in> uf_rel ?q"
    proof (induction rule: rtrancl_induct)
      case base
      show ?case
        using uf_rel_refl[OF invq] x by simp
    next
      case (step y z)
      from step.hyps(2) sub ab have "(y, z) \<in> uf_rel ?q"
        by auto
      with step.IH show ?case
        using uf_rel_trans by blast
    qed
  qed
qed

lemma uf_union_ok:
  assumes inv: "uf_inv p" and a: "a < length p" and b: "b < length p"
  shows "\<exists>p'. uf_union p a b = Some p' \<and> length p' = length p \<and> uf_inv p' \<and>
           uf_rel p' = {(x, y). x < length p \<and> y < length p \<and>
                                (x, y) \<in> (uf_rel p \<union> {(a, b), (b, a)})\<^sup>*}"
proof -
  from uf_find_ok[OF inv a] obtain p1 ra where 1: "uf_find p a = Some (p1, ra)"
    "root_of p a ra" "length p1 = length p" "uf_inv p1" "\<forall>y s. root_of p1 y s \<longleftrightarrow> root_of p y s"
    by blast
  from b 1(3) have "b < length p1"
    by simp
  from uf_find_ok[OF 1(4) this] obtain p2 rb where 2: "uf_find p1 b = Some (p2, rb)"
    "root_of p1 b rb" "length p2 = length p1" "uf_inv p2" "\<forall>y s. root_of p2 y s \<longleftrightarrow> root_of p1 y s"
    by blast
  have roots: "root_of p2 y s \<longleftrightarrow> root_of p y s" for y s
    using 1(5) 2(5) by simp
  then have rel: "uf_rel p2 = uf_rel p"
    by (simp add: uf_rel_def)
  have ra2: "root_of p2 a ra" and rb2: "root_of p2 b rb"
    using roots 1(2) 2(2) 1(5) by auto
  show ?thesis
  proof (cases "ra = rb")
    case True
    then have u: "uf_union p a b = Some p2"
      by (simp add: uf_union_def 1(1) 2(1))
    have "(a, b) \<in> uf_rel p" "(b, a) \<in> uf_rel p"
      using 1(2) 2(2) 1(5) True by (auto simp: uf_rel_def)
    then have "uf_rel p \<union> {(a, b), (b, a)} = uf_rel p"
      by auto
    moreover have "{(x, y). x < length p \<and> y < length p \<and> (x, y) \<in> (uf_rel p)\<^sup>*} = uf_rel p"
    proof (intro equalityI subrelI)
      fix x y assume "(x, y) \<in> {(x, y). x < length p \<and> y < length p \<and> (x, y) \<in> (uf_rel p)\<^sup>*}"
      then have x: "x < length p" and star: "(x, y) \<in> (uf_rel p)\<^sup>*"
        by auto
      from star show "(x, y) \<in> uf_rel p"
        by (induction rule: rtrancl_induct)
           (use x inv uf_rel_refl uf_rel_trans in blast)+
    next
      fix x y assume "(x, y) \<in> uf_rel p"
      then show "(x, y) \<in> {(x, y). x < length p \<and> y < length p \<and> (x, y) \<in> (uf_rel p)\<^sup>*}"
        using uf_rel_dom by auto
    qed
    ultimately show ?thesis
      using u 1(3) 2(3,4) rel by simp
  next
    case False
    then have u: "uf_union p a b = Some (p2[rb := ra])"
      by (simp add: uf_union_def 1(1) 2(1))
    from link_ok[OF 2(4) ra2 rb2 False] u rel 1(3) 2(3) show ?thesis
      by simp
  qed
qed


lemma rtrancl_restrict_step:
  fixes R X Y :: "(nat \<times> nat) set"
  assumes "\<forall>(x, y) \<in> R \<union> X. x < n \<and> y < n"
  shows "{(x, y). x < n \<and> y < n \<and>
                  (x, y) \<in> ({(x, y). x < n \<and> y < n \<and> (x, y) \<in> (R \<union> X)\<^sup>*} \<union> Y)\<^sup>*}
         = {(x, y). x < n \<and> y < n \<and> (x, y) \<in> (R \<union> X \<union> Y)\<^sup>*}"
proof -
  let ?M = "{(x, y). x < n \<and> y < n \<and> (x, y) \<in> (R \<union> X)\<^sup>*}"
  have "?M \<union> Y \<subseteq> (R \<union> X \<union> Y)\<^sup>*"
  proof -
    have "(R \<union> X)\<^sup>* \<subseteq> (R \<union> X \<union> Y)\<^sup>*"
      by (rule rtrancl_mono) blast
    then show ?thesis
      by auto
  qed
  then have "(?M \<union> Y)\<^sup>* \<subseteq> ((R \<union> X \<union> Y)\<^sup>*)\<^sup>*"
    by (rule rtrancl_mono)
  then have 1: "(?M \<union> Y)\<^sup>* \<subseteq> (R \<union> X \<union> Y)\<^sup>*"
    by simp
  have "R \<union> X \<union> Y \<subseteq> ?M \<union> Y"
    using assms by auto
  then have 2: "(R \<union> X \<union> Y)\<^sup>* \<subseteq> (?M \<union> Y)\<^sup>*"
    by (rule rtrancl_mono)
  from 1 2 show ?thesis
    by auto
qed

lemma union_all_ok:
  assumes "uf_inv p" and "\<forall>(a, b) \<in> set ps. a < length p \<and> b < length p"
  shows "\<exists>p'. union_all p ps = Some p' \<and> length p' = length p \<and> uf_inv p' \<and>
           uf_rel p' = {(x, y). x < length p \<and> y < length p \<and>
                                (x, y) \<in> (uf_rel p \<union> (set ps \<union> (set ps)\<inverse>))\<^sup>*}"
  using assms
proof (induction ps arbitrary: p)
  case Nil
  have "{(x, y). x < length p \<and> y < length p \<and> (x, y) \<in> (uf_rel p)\<^sup>*} = uf_rel p"
  proof (intro equalityI subrelI)
    fix x y assume "(x, y) \<in> {(x, y). x < length p \<and> y < length p \<and> (x, y) \<in> (uf_rel p)\<^sup>*}"
    then have x: "x < length p" and star: "(x, y) \<in> (uf_rel p)\<^sup>*"
      by auto
    from star show "(x, y) \<in> uf_rel p"
      by (induction rule: rtrancl_induct)
         (use x Nil.prems(1) uf_rel_refl uf_rel_trans in blast)+
  next
    fix x y assume "(x, y) \<in> uf_rel p"
    then show "(x, y) \<in> {(x, y). x < length p \<and> y < length p \<and> (x, y) \<in> (uf_rel p)\<^sup>*}"
      using uf_rel_dom by auto
  qed
  with Nil show ?case
    by simp
next
  case (Cons ab ps)
  obtain a b where ab: "ab = (a, b)"
    by (cases ab)
  with Cons.prems have a: "a < length p" and b: "b < length p"
    by auto
  let ?n = "length p"
  from uf_union_ok[OF Cons.prems(1) a b] obtain p1 where 1: "uf_union p a b = Some p1"
    "length p1 = ?n" "uf_inv p1"
    "uf_rel p1 = {(x, y). x < ?n \<and> y < ?n \<and> (x, y) \<in> (uf_rel p \<union> {(a, b), (b, a)})\<^sup>*}"
    by blast
  from Cons.prems(2) 1(2) have "\<forall>(a, b) \<in> set ps. a < length p1 \<and> b < length p1"
    by auto
  from Cons.IH[OF 1(3) this] obtain p' where 2: "union_all p1 ps = Some p'"
    "length p' = ?n" "uf_inv p'"
    "uf_rel p' = {(x, y). x < ?n \<and> y < ?n \<and> (x, y) \<in> (uf_rel p1 \<union> (set ps \<union> (set ps)\<inverse>))\<^sup>*}"
    using 1(2) by auto
  have "\<forall>(x, y) \<in> uf_rel p \<union> {(a, b), (b, a)}. x < ?n \<and> y < ?n"
    using a b uf_rel_dom by auto
  from rtrancl_restrict_step[OF this, of "set ps \<union> (set ps)\<inverse>"] 1(4) 2(4)
  have "uf_rel p' = {(x, y). x < ?n \<and> y < ?n \<and>
          (x, y) \<in> (uf_rel p \<union> {(a, b), (b, a)} \<union> (set ps \<union> (set ps)\<inverse>))\<^sup>*}"
    by simp
  moreover have "uf_rel p \<union> {(a, b), (b, a)} \<union> (set ps \<union> (set ps)\<inverse>)
                 = uf_rel p \<union> (set (ab # ps) \<union> (set (ab # ps))\<inverse>)"
    using ab by auto
  ultimately show ?case
    using 1(1) 2(1,2,3) ab by simp
qed

lemma union_all_init:
  assumes "\<forall>(a, b) \<in> set ps. a < n \<and> b < n"
  shows "\<exists>p. union_all (uf_init n) ps = Some p \<and> length p = n \<and> uf_inv p \<and>
           uf_rel p = linked n (set ps)"
proof -
  let ?E = "set ps \<union> (set ps)\<inverse>"
  from union_all_ok[OF uf_inv_init, of ps n] assms obtain p where
    p: "union_all (uf_init n) ps = Some p" "length p = n" "uf_inv p"
    "uf_rel p = {(x, y). x < n \<and> y < n \<and> (x, y) \<in> (uf_rel (uf_init n) \<union> ?E)\<^sup>*}"
    by (auto simp: length_uf_init)
  have "(uf_rel (uf_init n) \<union> ?E)\<^sup>* = ?E\<^sup>*"
  proof
    have "uf_rel (uf_init n) \<union> ?E \<subseteq> ?E\<^sup>*"
      by (auto simp: uf_rel_init)
    then have "(uf_rel (uf_init n) \<union> ?E)\<^sup>* \<subseteq> (?E\<^sup>*)\<^sup>*"
      by (rule rtrancl_mono)
    then show "(uf_rel (uf_init n) \<union> ?E)\<^sup>* \<subseteq> ?E\<^sup>*"
      by simp
    show "?E\<^sup>* \<subseteq> (uf_rel (uf_init n) \<union> ?E)\<^sup>*"
      by (rule rtrancl_mono) blast
  qed
  with p show ?thesis
    by (auto simp: linked_def)
qed

subsection \<open>Grouping with dict_append\<close>

lemma dict_append_map_of:
  "map_of (dict_append d k i) k' =
     (if k' = k then Some ((case map_of d k of None \<Rightarrow> [] | Some v \<Rightarrow> v) @ [i])
      else map_of d k')"
  by (induction d k i rule: dict_append.induct) auto

lemma dict_append_keys:
  "map fst (dict_append d k i) = (if k \<in> fst ` set d then map fst d else map fst d @ [k])"
  by (induction d k i rule: dict_append.induct) (auto simp: image_iff)

lemma dict_append_distinct:
  "distinct (map fst d) \<Longrightarrow> distinct (map fst (dict_append d k i))"
  by (simp add: dict_append_keys)

lemma fold_dict_distinct:
  "distinct (map fst d) \<Longrightarrow> distinct (map fst (fold (\<lambda>(k, i) d. dict_append d k i) kvs d))"
  by (induction kvs arbitrary: d) (auto simp: dict_append_distinct)

lemma fold_dict_map_of:
  "map_of (fold (\<lambda>(k, i) d. dict_append d k i) kvs d) k =
     (let vs = map snd (filter (\<lambda>(k', i). k' = k) kvs) in
      case map_of d k of
        None \<Rightarrow> (if vs = [] then None else Some vs)
      | Some v \<Rightarrow> Some (v @ vs))"
proof (induction kvs arbitrary: d)
  case Nil
  show ?case
    by (simp split: option.splits)
next
  case (Cons kv kvs)
  obtain k' i where kv: "kv = (k', i)"
    by (cases kv)
  show ?case
    unfolding kv by (simp add: Cons.IH dict_append_map_of Let_def split: option.splits)
qed

lemma fold_dict_empty:
  "(k, v) \<in> set (fold (\<lambda>(k, i) d. dict_append d k i) kvs []) \<longleftrightarrow>
     v = map snd (filter (\<lambda>(k', i). k' = k) kvs) \<and> v \<noteq> []"
proof -
  let ?d = "fold (\<lambda>(k, i) d. dict_append d k i) kvs []"
  have "distinct (map fst ?d)"
    by (rule fold_dict_distinct) simp
  then have "(k, v) \<in> set ?d \<longleftrightarrow> map_of ?d k = Some v"
    by simp
  then show ?thesis
    by (auto simp: fold_dict_map_of Let_def)
qed


subsection \<open>The clusters\<close>

lemma build_clusters_ok:
  assumes "uf_inv p" and "\<forall>i \<in> set js. root_of p i (rf i)"
  shows "\<exists>p'. build_clusters p js cl = Some (p', fold (\<lambda>i c. dict_append c (rf i) i) js cl) \<and>
           length p' = length p \<and> uf_inv p' \<and> (\<forall>y s. root_of p' y s \<longleftrightarrow> root_of p y s)"
  using assms
proof (induction js arbitrary: p cl)
  case Nil
  then show ?case
    by simp
next
  case (Cons i js)
  from Cons.prems(2) have ri: "root_of p i (rf i)"
    by simp
  then have "i < length p"
    by (rule root_of_lt)
  from uf_find_ok[OF Cons.prems(1) this] obtain p1 r where 1: "uf_find p i = Some (p1, r)"
    "root_of p i r" "length p1 = length p" "uf_inv p1" "\<forall>y s. root_of p1 y s \<longleftrightarrow> root_of p y s"
    by blast
  from ri 1(2) have r: "r = rf i"
    using root_of_fun by blast
  from Cons.prems(2) 1(5) have "\<forall>i \<in> set js. root_of p1 i (rf i)"
    by simp
  from Cons.IH[OF 1(4) this, of "dict_append cl (rf i) i"] obtain p' where
    2: "build_clusters p1 js (dict_append cl (rf i) i)
        = Some (p', fold (\<lambda>i c. dict_append c (rf i) i) js (dict_append cl (rf i) i))"
    "length p' = length p1" "uf_inv p'" "\<forall>y s. root_of p' y s \<longleftrightarrow> root_of p1 y s"
    by blast
  show ?case
    using 1(1,3,5) 2 r by simp
qed

lemma cluster_records_ok:
  assumes "\<forall>(a, b) \<in> set ps. a < n \<and> b < n"
  shows "\<exists>p cl rf. cluster_records n ps = Some (p, cl) \<and> length p = n \<and>
           (\<forall>i < n. root_of p i (rf i)) \<and>
           (\<forall>i < n. \<forall>j < n. rf i = rf j \<longleftrightarrow> (i, j) \<in> linked n (set ps)) \<and>
           (\<forall>k v. (k, v) \<in> set cl \<longleftrightarrow> v = filter (\<lambda>i. rf i = k) [0..<n] \<and> v \<noteq> [])"
proof -
  from union_all_init[OF assms] obtain p0 where p0: "union_all (uf_init n) ps = Some p0"
    "length p0 = n" "uf_inv p0" "uf_rel p0 = linked n (set ps)"
    by blast
  from p0(2,3) have "\<forall>i. \<exists>r. i < n \<longrightarrow> root_of p0 i r"
    by (auto simp: uf_inv_def)
  then obtain rf where rf: "\<forall>i. i < n \<longrightarrow> root_of p0 i (rf i)"
    by metis
  then have "\<forall>i \<in> set [0..<n]. root_of p0 i (rf i)"
    by simp
  from build_clusters_ok[OF p0(3) this, of "[]"] obtain p where
    p: "build_clusters p0 [0..<n] [] = Some (p, fold (\<lambda>i c. dict_append c (rf i) i) [0..<n] [])"
    "length p = length p0" "\<forall>y s. root_of p y s \<longleftrightarrow> root_of p0 y s"
    by blast
  let ?cl = "fold (\<lambda>i c. dict_append c (rf i) i) [0..<n] []"
  have cl: "?cl = fold (\<lambda>(k, i) d. dict_append d k i) (map (\<lambda>i. (rf i, i)) [0..<n]) []"
    by (simp add: fold_map comp_def)
  have members: "(k, v) \<in> set ?cl \<longleftrightarrow> v = filter (\<lambda>i. rf i = k) [0..<n] \<and> v \<noteq> []" for k v
  proof -
    have "map snd (filter (\<lambda>(k', i). k' = k) (map (\<lambda>i. (rf i, i)) [0..<n]))
          = filter (\<lambda>i. rf i = k) [0..<n]"
      by (simp add: filter_map comp_def)
    then show ?thesis
      unfolding cl fold_dict_empty by simp
  qed
  have conn: "rf i = rf j \<longleftrightarrow> (i, j) \<in> linked n (set ps)" if "i < n" "j < n" for i j
  proof -
    from that rf have ij: "root_of p0 i (rf i)" "root_of p0 j (rf j)"
      by auto
    have "(i, j) \<in> uf_rel p0 \<longleftrightarrow> rf i = rf j"
      using ij by (auto simp: uf_rel_def dest: root_of_fun)
    with p0(4) show ?thesis
      by simp
  qed
  have "cluster_records n ps = Some (p, ?cl)"
    by (simp add: cluster_records_def p0(1) p(1))
  with p(2,3) p0(2) rf members conn show ?thesis
    by blast
qed

subsection \<open>The canonical identifier\<close>

lemma hd_sort_Min:
  fixes xs :: "'a::linorder list"
  assumes "xs \<noteq> []"
  shows "sort xs \<noteq> [] \<and> hd (sort xs) = Min (set xs)"
proof -
  from assms have ne: "sort xs \<noteq> []"
    by (metis length_0_conv length_sort)
  then obtain h t where ht: "sort xs = h # t"
    by (cases "sort xs") auto
  have "sorted (h # t)" and st: "set (h # t) = set xs"
    using ht by (metis sorted_sort, metis set_sort)
  then have "\<forall>y \<in> set xs. h \<le> y" and "h \<in> set xs"
    by auto
  then have "Min (set xs) = h"
    by (intro Min_eqI) auto
  with ne ht show ?thesis
    by simp
qed

lemma fold_upd_const:
  "fold (\<lambda>m r. r(m \<mapsto> c)) ms rtc x = (if x \<in> set ms then Some c else rtc x)"
  by (induction ms arbitrary: rtc) auto

lemma build_mapping_ok:
  assumes "\<And>k v. (k, v) \<in> set cl \<Longrightarrow> v \<noteq> []"
    and "\<And>k v k' v'. (k, v) \<in> set cl \<Longrightarrow> (k', v') \<in> set cl \<Longrightarrow> set v \<inter> set v' \<noteq> {}
           \<Longrightarrow> v = v'"
  shows "\<exists>rtc'. build_mapping pid cl rtc = Inr rtc' \<and>
           (\<forall>m. (\<forall>k v. (k, v) \<in> set cl \<longrightarrow> m \<notin> set v) \<longrightarrow> rtc' m = rtc m) \<and>
           (\<forall>k v m. (k, v) \<in> set cl \<longrightarrow> m \<in> set v \<longrightarrow> rtc' m = Some (Min (pid ` set v)))"
  using assms
proof (induction cl arbitrary: rtc)
  case Nil
  then show ?case
    by simp
next
  case (Cons kv cl)
  obtain k ms where kv: "kv = (k, ms)"
    by (cases kv)
  from Cons.prems(1)[of k ms] kv have ms: "ms \<noteq> []"
    by simp
  define c where "c = Min (pid ` set ms)"
  define rtc1 where "rtc1 = (\<lambda>x. if x \<in> set ms then Some c else rtc x)"
  have step: "build_mapping pid (kv # cl) rtc = build_mapping pid cl rtc1"
  proof (cases "length ms = 1")
    case True
    then obtain m where m: "ms = [m]"
      by (cases ms) auto
    then have "rtc(ms ! 0 \<mapsto> pid (ms ! 0)) = rtc1"
      by (auto simp: rtc1_def c_def)
    with True kv show ?thesis
      by simp
  next
    case False
    from ms have "map pid ms \<noteq> []"
      by simp
    from hd_sort_Min[OF this] obtain t where "sort (map pid ms) = c # t"
      by (cases "sort (map pid ms)") (auto simp: c_def)
    moreover have "fold (\<lambda>m r. r(m \<mapsto> c)) ms rtc = rtc1"
      by (rule ext) (simp add: fold_upd_const rtc1_def)
    ultimately show ?thesis
      using False kv by simp
  qed
  have p1: "v \<noteq> []" if "(k, v) \<in> set cl" for k v
    using Cons.prems(1)[of k v] that by simp
  have p2: "v = v'" if "(k, v) \<in> set cl" "(k', v') \<in> set cl" "set v \<inter> set v' \<noteq> {}" for k v k' v'
    using Cons.prems(2)[of k v k' v'] that by simp
  have "\<exists>rtc'. build_mapping pid cl rtc1 = Inr rtc' \<and>
          (\<forall>m. (\<forall>k v. (k, v) \<in> set cl \<longrightarrow> m \<notin> set v) \<longrightarrow> rtc' m = rtc1 m) \<and>
          (\<forall>k v m. (k, v) \<in> set cl \<longrightarrow> m \<in> set v \<longrightarrow> rtc' m = Some (Min (pid ` set v)))"
  proof (rule Cons.IH)
    show "\<And>k v. (k, v) \<in> set cl \<Longrightarrow> v \<noteq> []"
      by (rule p1)
    show "\<And>k v k' v'. (k, v) \<in> set cl \<Longrightarrow> (k', v') \<in> set cl \<Longrightarrow> set v \<inter> set v' \<noteq> {}
            \<Longrightarrow> v = v'"
      by (rule p2)
  qed
  then obtain rtc' where r: "build_mapping pid cl rtc1 = Inr rtc'"
    "\<forall>m. (\<forall>k v. (k, v) \<in> set cl \<longrightarrow> m \<notin> set v) \<longrightarrow> rtc' m = rtc1 m"
    "\<forall>k v m. (k, v) \<in> set cl \<longrightarrow> m \<in> set v \<longrightarrow> rtc' m = Some (Min (pid ` set v))"
    by blast
  have a: "rtc' m = rtc m" if "\<forall>k v. (k, v) \<in> set (kv # cl) \<longrightarrow> m \<notin> set v" for m
  proof -
    from that kv have "m \<notin> set ms" and "\<forall>k v. (k, v) \<in> set cl \<longrightarrow> m \<notin> set v"
      by auto
    with r(2) show ?thesis
      by (simp add: rtc1_def)
  qed
  have b: "rtc' m = Some (Min (pid ` set ms))" if "m \<in> set ms" for m
  proof (cases "\<forall>k v. (k, v) \<in> set cl \<longrightarrow> m \<notin> set v")
    case True
    with r(2) have "rtc' m = rtc1 m"
      by blast
    with that show ?thesis
      by (simp add: rtc1_def c_def)
  next
    case False
    then obtain k' v where v: "(k', v) \<in> set cl" "m \<in> set v"
      by auto
    from that v(2) have "set ms \<inter> set v \<noteq> {}"
      by auto
    from Cons.prems(2)[of k ms k' v] this v(1) kv have "ms = v"
      by simp
    with v r(3) show ?thesis
      by blast
  qed
  have c: "rtc' m = Some (Min (pid ` set v))" if "(k', v) \<in> set (kv # cl)" "m \<in> set v" for k' v m
  proof (cases "(k', v) = kv")
    case True
    with kv that b show ?thesis
      by auto
  next
    case False
    with that r(3) show ?thesis
      by auto
  qed
  have "build_mapping pid (kv # cl) rtc = Inr rtc'"
    using step r(1) by simp
  moreover have "\<forall>m. (\<forall>k v. (k, v) \<in> set (kv # cl) \<longrightarrow> m \<notin> set v) \<longrightarrow> rtc' m = rtc m"
    using a by blast
  moreover have "\<forall>k v m. (k, v) \<in> set (kv # cl) \<longrightarrow> m \<in> set v
                   \<longrightarrow> rtc' m = Some (Min (pid ` set v))"
    using c by blast
  ultimately show ?case
    by (intro exI conjI)
qed


lemma fold_fill:
  "fold (\<lambda>i r. if r i = None then r(i \<mapsto> pid i) else r) js rtc x =
     (case rtc x of Some c \<Rightarrow> Some c
      | None \<Rightarrow> if x \<in> set js then Some (pid x) else None)"
  by (induction js arbitrary: rtc) (auto split: option.splits)

lemma cluster_ids_ok:
  assumes "\<And>k v. (k, v) \<in> set cl \<longleftrightarrow> v = filter (\<lambda>i. rf i = k) [0..<n] \<and> v \<noteq> []"
  shows "\<exists>rtc. record_to_cluster pid n cl = Inr rtc \<and>
           (\<forall>i < n. cluster_id_column pid n rtc ! i = Min (pid ` {j. j < n \<and> rf j = rf i}))"
proof -
  have "\<exists>rtc'. build_mapping pid cl Map.empty = Inr rtc' \<and>
          (\<forall>m. (\<forall>k v. (k, v) \<in> set cl \<longrightarrow> m \<notin> set v) \<longrightarrow> rtc' m = Map.empty m) \<and>
          (\<forall>k v m. (k, v) \<in> set cl \<longrightarrow> m \<in> set v \<longrightarrow> rtc' m = Some (Min (pid ` set v)))"
  proof (rule build_mapping_ok)
    show "\<And>k v. (k, v) \<in> set cl \<Longrightarrow> v \<noteq> []"
      using assms by simp
    show "\<And>k v k' v'. (k, v) \<in> set cl \<Longrightarrow> (k', v') \<in> set cl \<Longrightarrow> set v \<inter> set v' \<noteq> {}
            \<Longrightarrow> v = v'"
    proof -
      fix k v k' v'
      assume a: "(k, v) \<in> set cl" "(k', v') \<in> set cl" "set v \<inter> set v' \<noteq> {}"
      then have v: "v = filter (\<lambda>i. rf i = k) [0..<n]" "v' = filter (\<lambda>i. rf i = k') [0..<n]"
        using assms by auto
      from a(3) obtain m where "m \<in> set v" "m \<in> set v'"
        by auto
      with v have "k = k'"
        by auto
      with v show "v = v'"
        by simp
    qed
  qed
  then obtain rtc' where r: "build_mapping pid cl Map.empty = Inr rtc'"
    "\<forall>k v m. (k, v) \<in> set cl \<longrightarrow> m \<in> set v \<longrightarrow> rtc' m = Some (Min (pid ` set v))"
    by blast
  let ?rtc = "fold (\<lambda>i r. if r i = None then r(i \<mapsto> pid i) else r) [0..<n] rtc'"
  have "record_to_cluster pid n cl = Inr ?rtc"
    by (simp add: record_to_cluster_def r(1))
  moreover have "cluster_id_column pid n ?rtc ! i = Min (pid ` {j. j < n \<and> rf j = rf i})"
    if "i < n" for i
  proof -
    let ?v = "filter (\<lambda>j. rf j = rf i) [0..<n]"
    from that have "i \<in> set ?v"
      by simp
    then have "?v \<noteq> []"
      by (metis empty_iff empty_set)
    then have "(rf i, ?v) \<in> set cl"
      using assms[of "rf i" ?v] by simp
    with r(2) \<open>i \<in> set ?v\<close> have "rtc' i = Some (Min (pid ` set ?v))"
      by blast
    moreover have "set ?v = {j. j < n \<and> rf j = rf i}"
      by auto
    ultimately have "?rtc i = Some (Min (pid ` {j. j < n \<and> rf j = rf i}))"
      by (simp add: fold_fill)
    with that show ?thesis
      by (simp add: cluster_id_column_def)
  qed
  ultimately show ?thesis
    by blast
qed

lemma canonical_ids_ok:
  assumes "\<forall>(a, b) \<in> set ps. a < n \<and> b < n"
  shows "\<exists>p cl rf ids. cluster_records n ps = Some (p, cl) \<and>
           canonical_ids pid n ps = Inr (cl, ids) \<and> clustered n (set ps) pid p cl rf ids"
proof -
  from cluster_records_ok[OF assms] obtain p cl rf where
    c: "cluster_records n ps = Some (p, cl)" "length p = n" "\<forall>i < n. root_of p i (rf i)"
    "\<forall>i < n. \<forall>j < n. rf i = rf j \<longleftrightarrow> (i, j) \<in> linked n (set ps)"
    "\<forall>k v. (k, v) \<in> set cl \<longleftrightarrow> v = filter (\<lambda>i. rf i = k) [0..<n] \<and> v \<noteq> []"
    by blast
  from c(5) have "\<And>k v. (k, v) \<in> set cl \<longleftrightarrow> v = filter (\<lambda>i. rf i = k) [0..<n] \<and> v \<noteq> []"
    by blast
  from cluster_ids_ok[of cl rf n pid, OF this] obtain rtc where
    r: "record_to_cluster pid n cl = Inr rtc"
    "\<forall>i < n. cluster_id_column pid n rtc ! i = Min (pid ` {j. j < n \<and> rf j = rf i})"
    by blast
  let ?ids = "cluster_id_column pid n rtc"
  have 1: "canonical_ids pid n ps = Inr (cl, ?ids)"
    by (simp add: canonical_ids_def c(1) r(1))
  have 2: "length ?ids = n"
    by (simp add: cluster_id_column_def)
  have "?ids ! i = Min (pid ` {j. j < n \<and> (i, j) \<in> linked n (set ps)})"
    if "i < n" for i
  proof -
    have "rf j = rf i \<longleftrightarrow> (i, j) \<in> linked n (set ps)" if "j < n" for j
      using c(4) \<open>i < n\<close> that by (metis (full_types))
    then have "{j. j < n \<and> rf j = rf i} = {j. j < n \<and> (i, j) \<in> linked n (set ps)}"
      by auto
    with r(2) that show ?thesis
      by simp
  qed
  then have 3: "\<forall>i < n. ?ids ! i = Min (pid ` {j. j < n \<and> (i, j) \<in> linked n (set ps)})"
    by blast
  have "clustered n (set ps) pid p cl rf ?ids"
    unfolding clustered_def using c(2,3,4,5) 2 3 by (intro conjI)
  with c(1) 1 show ?thesis
    by blast
qed

section \<open>Blocks and candidate pairs\<close>

lemma fold_concat_fold: "fold f (concat xss) d = fold (\<lambda>xs. fold f xs) xss d"
  by (induction xss arbitrary: d) auto

lemma build_blocks_fold:
  "build_blocks roster =
     fold (\<lambda>(k, i) d. dict_append d k i)
       (concat (map (\<lambda>i. map (\<lambda>k. (k, i)) (block_keys (roster ! i))) [0..<length roster])) []"
  by (simp add: build_blocks_def fold_concat_fold fold_map comp_def)

lemma build_blocks_mem:
  assumes "(k, v) \<in> set (build_blocks roster)"
  shows "set v = {i. i < length roster \<and> k \<in> set (block_keys (roster ! i))} \<and> v \<noteq> []"
proof -
  let ?kvs = "concat (map (\<lambda>i. map (\<lambda>k. (k, i)) (block_keys (roster ! i))) [0..<length roster])"
  from assms have v: "v = map snd (filter (\<lambda>(k', i). k' = k) ?kvs)" "v \<noteq> []"
    unfolding build_blocks_fold fold_dict_empty by auto
  have "set v = {i. (k, i) \<in> set ?kvs}"
    unfolding v(1) by force
  also have "\<dots> = {i. i < length roster \<and> k \<in> set (block_keys (roster ! i))}"
    by auto
  finally show ?thesis
    using v(2) by simp
qed

lemma build_blocks_ex:
  assumes "i < length roster" and "k \<in> set (block_keys (roster ! i))"
  shows "\<exists>v. (k, v) \<in> set (build_blocks roster) \<and> i \<in> set v"
proof -
  let ?kvs = "concat (map (\<lambda>i. map (\<lambda>k. (k, i)) (block_keys (roster ! i))) [0..<length roster])"
  let ?v = "map snd (filter (\<lambda>(k', i). k' = k) ?kvs)"
  from assms have "(k, i) \<in> set ?kvs"
    by auto
  then have i: "i \<in> set ?v"
    by force
  then have "?v \<noteq> []"
    by (metis empty_iff empty_set)
  then have "(k, ?v) \<in> set (build_blocks roster)"
    unfolding build_blocks_fold fold_dict_empty by simp
  with i show ?thesis
    by blast
qed

lemma combinations2_sorted:
  fixes xs :: "'a::linorder list"
  assumes "sorted xs" and "distinct xs"
  shows "set (combinations2 xs) = {(a, b). a \<in> set xs \<and> b \<in> set xs \<and> a < b}"
  using assms
proof (induction xs)
  case Nil
  then show ?case
    by simp
next
  case (Cons x xs)
  then have "\<forall>y \<in> set xs. x < y"
    by (auto simp: order_less_le)
  with Cons show ?case
    by auto
qed

lemma combinations2_distinct: "distinct xs \<Longrightarrow> distinct (combinations2 xs)"
proof (induction xs)
  case Nil
  then show ?case by simp
next
  case (Cons x xs)
  have "set (combinations2 xs) \<subseteq> set xs \<times> set xs"
    by (induction xs) auto
  with Cons show ?case
    by (auto simp: distinct_map inj_on_def)
qed

lemma candidate_pairs_iff:
  "(a, b) \<in> set (candidate_pairs blocks) \<longleftrightarrow>
     a < b \<and> (\<exists>k v. (k, v) \<in> set blocks \<and> a \<in> set v \<and> b \<in> set v)"
proof -
  have comb: "set (combinations2 (sort (remdups v))) = {(a, b). a \<in> set v \<and> b \<in> set v \<and> a < b}"
    for v :: "nat list"
    using combinations2_sorted[of "sort (remdups v)"] by simp
  have two: "length v > 1" if "a \<in> set v" "b \<in> set v" "a < b" for v :: "nat list"
  proof -
    from that have "{a, b} \<subseteq> set v" "card {a, b} = 2"
      by auto
    then have "2 \<le> card (set v)"
      by (metis card_mono List.finite_set)
    also have "\<dots> \<le> length v"
      by (rule card_length)
    finally show ?thesis
      by simp
  qed
  show ?thesis
  proof
    assume "(a, b) \<in> set (candidate_pairs blocks)"
    then obtain k v where "(k, v) \<in> set blocks" "length v > 1"
      "(a, b) \<in> set (combinations2 (sort (remdups v)))"
      by (auto simp: candidate_pairs_def split: if_splits)
    then show "a < b \<and> (\<exists>k v. (k, v) \<in> set blocks \<and> a \<in> set v \<and> b \<in> set v)"
      unfolding comb by auto
  next
    assume r: "a < b \<and> (\<exists>k v. (k, v) \<in> set blocks \<and> a \<in> set v \<and> b \<in> set v)"
    then obtain k v where kv: "(k, v) \<in> set blocks" "a \<in> set v" "b \<in> set v" "a < b"
      by auto
    then have "(a, b) \<in> set (combinations2 (sort (remdups v)))"
      unfolding comb by simp
    with kv two[OF kv(2,3,4)] show "(a, b) \<in> set (candidate_pairs blocks)"
      by (force simp: candidate_pairs_def)
  qed
qed

lemma candidates_iff:
  "(a, b) \<in> set (candidate_pairs (build_blocks roster)) \<longleftrightarrow>
     a < b \<and> b < length roster \<and>
     set (block_keys (roster ! a)) \<inter> set (block_keys (roster ! b)) \<noteq> {}"
proof
  assume "(a, b) \<in> set (candidate_pairs (build_blocks roster))"
  then obtain k v where kv: "a < b" "(k, v) \<in> set (build_blocks roster)" "a \<in> set v" "b \<in> set v"
    unfolding candidate_pairs_iff by auto
  from build_blocks_mem[OF kv(2)] kv(3,4)
  have "b < length roster" "k \<in> set (block_keys (roster ! a))" "k \<in> set (block_keys (roster ! b))"
    by auto
  with kv(1) show "a < b \<and> b < length roster \<and>
     set (block_keys (roster ! a)) \<inter> set (block_keys (roster ! b)) \<noteq> {}"
    by auto
next
  assume r: "a < b \<and> b < length roster \<and>
     set (block_keys (roster ! a)) \<inter> set (block_keys (roster ! b)) \<noteq> {}"
  then obtain k where k: "k \<in> set (block_keys (roster ! a))" "k \<in> set (block_keys (roster ! b))"
    by auto
  from r have ab: "a < length roster" "b < length roster"
    by auto
  from build_blocks_ex[OF ab(1) k(1)] obtain v where v: "(k, v) \<in> set (build_blocks roster)"
    "a \<in> set v"
    by blast
  from build_blocks_mem[OF v(1)] ab(2) k(2) have "b \<in> set v"
    by simp
  with v r show "(a, b) \<in> set (candidate_pairs (build_blocks roster))"
    unfolding candidate_pairs_iff by blast
qed

lemma candidates_distinct: "distinct (candidate_pairs blocks)"
  by (simp add: candidate_pairs_def)

lemma block_keys_iff:
  "k \<in> set (block_keys r) \<longleftrightarrow>
     (npi_norm r \<noteq> [] \<and> npi_norm r \<noteq> ''nan'' \<and> k = ''NPI::'' @ npi_norm r) \<or>
     (license_norm r \<noteq> [] \<and> license_state_norm r \<noteq> [] \<and> license_norm r \<noteq> ''nan'' \<and>
      k = ''LIC::'' @ license_state_norm r @ ''::'' @ license_norm r) \<or>
     (last_pref r \<noteq> [] \<and> k = ''LNP::'' @ last_pref r) \<or>
     (phone_last4_c r \<noteq> [] \<and> k = ''PH4::'' @ phone_last4_c r) \<or>
     (tax_norm r \<noteq> [] \<and> k = ''TAX::'' @ tax_norm r)"
  by (auto simp: block_keys_def)

lemma colon_split:
  assumes "s1 @ ''::'' @ l1 = s2 @ ''::'' @ l2"
    and "CHR '':'' \<notin> set s1" and "CHR '':'' \<notin> set s2"
  shows "s1 = s2 \<and> l1 = l2"
proof -
  have tw: "takeWhile (\<lambda>c. c \<noteq> CHR '':'') (s @ ''::'' @ l) = s" if "CHR '':'' \<notin> set s" for s l
    using that by (induction s) auto
  from assms(1) have "takeWhile (\<lambda>c. c \<noteq> CHR '':'') (s1 @ ''::'' @ l1)
                      = takeWhile (\<lambda>c. c \<noteq> CHR '':'') (s2 @ ''::'' @ l2)"
    by simp
  with tw[OF assms(2)] tw[OF assms(3)] have "s1 = s2"
    by simp
  with assms(1) show ?thesis
    by simp
qed

lemma shared_key:
  assumes "k \<in> set (block_keys ra)" and "k \<in> set (block_keys rb)"
  shows "(npi_norm ra \<noteq> [] \<and> npi_norm ra = npi_norm rb) \<or>
     (license_norm ra \<noteq> [] \<and> license_state_norm ra \<noteq> [] \<and>
      license_norm rb \<noteq> [] \<and> license_state_norm rb \<noteq> [] \<and>
      license_state_norm ra @ ''::'' @ license_norm ra
        = license_state_norm rb @ ''::'' @ license_norm rb) \<or>
     (last_pref ra \<noteq> [] \<and> last_pref ra = last_pref rb) \<or>
     (phone_last4_c ra \<noteq> [] \<and> phone_last4_c ra = phone_last4_c rb) \<or>
     (tax_norm ra \<noteq> [] \<and> tax_norm ra = tax_norm rb)"
  using assms unfolding block_keys_iff by auto

text \<open>
  C7. A candidate pair \<open>(a, b)\<close> has \<open>a < b\<close> and occurs once in the list of candidates, and
  its two records share a block key. The shared key is built from non-empty values of
  both records: an equal non-empty NPI, last-name prefix, phone last-4 or taxonomy, or an
  equal license key, the string \<open>state::number\<close> with both parts non-empty (equal license
  keys mean equal state and equal number when neither state contains a colon). A record
  is in a block only under a key built from a non-empty value of its own.
\<close>

theorem candidates_share_key:
  assumes "(a, b) \<in> set (candidate_pairs (build_blocks roster))"
  shows "a < b \<and> b < length roster \<and>
         distinct (candidate_pairs (build_blocks roster)) \<and>
         (\<exists>k. k \<in> set (block_keys (roster ! a)) \<and> k \<in> set (block_keys (roster ! b))) \<and>
         ((npi_norm (roster ! a) \<noteq> [] \<and> npi_norm (roster ! a) = npi_norm (roster ! b)) \<or>
          (license_norm (roster ! a) \<noteq> [] \<and> license_state_norm (roster ! a) \<noteq> [] \<and>
           license_norm (roster ! b) \<noteq> [] \<and> license_state_norm (roster ! b) \<noteq> [] \<and>
           license_state_norm (roster ! a) @ ''::'' @ license_norm (roster ! a)
             = license_state_norm (roster ! b) @ ''::'' @ license_norm (roster ! b) \<and>
           (CHR '':'' \<notin> set (license_state_norm (roster ! a)) \<and>
            CHR '':'' \<notin> set (license_state_norm (roster ! b)) \<longrightarrow>
            license_state_norm (roster ! a) = license_state_norm (roster ! b) \<and>
            license_norm (roster ! a) = license_norm (roster ! b))) \<or>
          (last_pref (roster ! a) \<noteq> [] \<and> last_pref (roster ! a) = last_pref (roster ! b)) \<or>
          (phone_last4_c (roster ! a) \<noteq> [] \<and>
           phone_last4_c (roster ! a) = phone_last4_c (roster ! b)) \<or>
          (tax_norm (roster ! a) \<noteq> [] \<and> tax_norm (roster ! a) = tax_norm (roster ! b))) \<and>
         (\<forall>k v i. (k, v) \<in> set (build_blocks roster) \<and> i \<in> set v \<longrightarrow>
            i < length roster \<and>
            (k = ''NPI::'' @ npi_norm (roster ! i) \<and> npi_norm (roster ! i) \<noteq> [] \<or>
             k = ''LIC::'' @ license_state_norm (roster ! i) @ ''::'' @ license_norm (roster ! i) \<and>
               license_state_norm (roster ! i) \<noteq> [] \<and> license_norm (roster ! i) \<noteq> [] \<or>
             k = ''LNP::'' @ last_pref (roster ! i) \<and> last_pref (roster ! i) \<noteq> [] \<or>
             k = ''PH4::'' @ phone_last4_c (roster ! i) \<and> phone_last4_c (roster ! i) \<noteq> [] \<or>
             k = ''TAX::'' @ tax_norm (roster ! i) \<and> tax_norm (roster ! i) \<noteq> []))"
proof -
  from assms obtain k where ab: "a < b" "b < length roster"
    and k: "k \<in> set (block_keys (roster ! a))" "k \<in> set (block_keys (roster ! b))"
    unfolding candidates_iff by auto
  note sk = shared_key[OF k]
  have blocks: "i < length roster \<and>
            (k = ''NPI::'' @ npi_norm (roster ! i) \<and> npi_norm (roster ! i) \<noteq> [] \<or>
             k = ''LIC::'' @ license_state_norm (roster ! i) @ ''::'' @ license_norm (roster ! i) \<and>
               license_state_norm (roster ! i) \<noteq> [] \<and> license_norm (roster ! i) \<noteq> [] \<or>
             k = ''LNP::'' @ last_pref (roster ! i) \<and> last_pref (roster ! i) \<noteq> [] \<or>
             k = ''PH4::'' @ phone_last4_c (roster ! i) \<and> phone_last4_c (roster ! i) \<noteq> [] \<or>
             k = ''TAX::'' @ tax_norm (roster ! i) \<and> tax_norm (roster ! i) \<noteq> [])"
    if "(k, v) \<in> set (build_blocks roster) \<and> i \<in> set v" for k v i
  proof -
    from that build_blocks_mem[of k v roster]
    have "i < length roster" "k \<in> set (block_keys (roster ! i))"
      by auto
    then show ?thesis
      unfolding block_keys_iff by blast
  qed
  have col: "license_state_norm (roster ! a) = license_state_norm (roster ! b) \<and>
             license_norm (roster ! a) = license_norm (roster ! b)"
    if "license_state_norm (roster ! a) @ ''::'' @ license_norm (roster ! a)
          = license_state_norm (roster ! b) @ ''::'' @ license_norm (roster ! b)"
      "CHR '':'' \<notin> set (license_state_norm (roster ! a))"
      "CHR '':'' \<notin> set (license_state_norm (roster ! b))"
    using colon_split[OF that] .
  from sk col have share: "(npi_norm (roster ! a) \<noteq> [] \<and> npi_norm (roster ! a) = npi_norm (roster ! b)) \<or>
          (license_norm (roster ! a) \<noteq> [] \<and> license_state_norm (roster ! a) \<noteq> [] \<and>
           license_norm (roster ! b) \<noteq> [] \<and> license_state_norm (roster ! b) \<noteq> [] \<and>
           license_state_norm (roster ! a) @ ''::'' @ license_norm (roster ! a)
             = license_state_norm (roster ! b) @ ''::'' @ license_norm (roster ! b) \<and>
           (CHR '':'' \<notin> set (license_state_norm (roster ! a)) \<and>
            CHR '':'' \<notin> set (license_state_norm (roster ! b)) \<longrightarrow>
            license_state_norm (roster ! a) = license_state_norm (roster ! b) \<and>
            license_norm (roster ! a) = license_norm (roster ! b))) \<or>
          (last_pref (roster ! a) \<noteq> [] \<and> last_pref (roster ! a) = last_pref (roster ! b)) \<or>
          (phone_last4_c (roster ! a) \<noteq> [] \<and>
           phone_last4_c (roster ! a) = phone_last4_c (roster ! b)) \<or>
          (tax_norm (roster ! a) \<noteq> [] \<and> tax_norm (roster ! a) = tax_norm (roster ! b))"
    by blast
  from k have key: "\<exists>k. k \<in> set (block_keys (roster ! a)) \<and> k \<in> set (block_keys (roster ! b))"
    by blast
  from ab candidates_distinct key share blocks show ?thesis
    by blast
qed

section \<open>The pairs table and the result of dedupe\<close>

lemma score_pairs_total:
  "score_pairs (\<lambda>p. Inr (f p)) ps = Inr (map f ps)"
  by (induction ps) auto

lemma pair_body_Inr:
  "pair_body sm roster =
     (\<lambda>p. Inr \<lparr>idx_a = fst p, idx_b = snd p,
               score = fst (score_pair sm (roster ! fst p) (roster ! snd p)),
               reasons = snd (score_pair sm (roster ! fst p) (roster ! snd p))\<rparr>)"
  by (rule ext) (simp add: pair_body_def Let_def split: prod.splits)

lemma classified_extend:
  "pair_row.extend \<lparr>idx_a = a, idx_b = b, score = s, reasons = rs\<rparr> (classified_row.fields c)
   = \<lparr>idx_a = a, idx_b = b, score = s, reasons = rs, match_class = c\<rparr>"
  by (simp add: pair_row.defs classified_row.defs)

lemma score_extend:
  "score (pair_row.extend r (classified_row.fields c)) = score r"
  by (cases r) (simp add: pair_row.defs classified_row.defs)

lemma table_row_sel:
  "idx_a (table_row sm td tp roster (a, b)) = a"
  "idx_b (table_row sm td tp roster (a, b)) = b"
  "score (table_row sm td tp roster (a, b)) = fst (score_pair sm (roster ! a) (roster ! b))"
  "reasons (table_row sm td tp roster (a, b)) = snd (score_pair sm (roster ! a) (roster ! b))"
  "match_class (table_row sm td tp roster (a, b))
     = classify td tp (fst (score_pair sm (roster ! a) (roster ! b)))"
  by (simp_all add: table_row_def)

lemma classify_definite: "classify td tp s = ''definite'' \<longleftrightarrow> td \<le> s"
  by (simp add: classify_def)

lemma pairs_table_rows:
  assumes "ps \<noteq> []"
  shows "\<exists>pairs_df. 
     (case score_pairs (pair_body sm roster) ps of
        Inl e \<Rightarrow> Inl e
      | Inr pair_data \<Rightarrow> pairs_table td tp pair_data) = Inr pairs_df \<and>
     set pairs_df = table_row sm td tp roster ` set ps \<and>
     length pairs_df = length ps \<and>
     sorted (rev (map score pairs_df))"
proof -
  let ?raw = "\<lambda>p. \<lparr>idx_a = fst p, idx_b = snd p,
               score = fst (score_pair sm (roster ! fst p) (roster ! snd p)),
               reasons = snd (score_pair sm (roster ! fst p) (roster ! snd p))\<rparr>"
  let ?ext = "\<lambda>r. pair_row.extend r (classified_row.fields (classify td tp (score r)))"
  let ?df = "map ?ext (sort_key (\<lambda>r. - score r) (map ?raw ps))"
  have 1: "score_pairs (pair_body sm roster) ps = Inr (map ?raw ps)"
    unfolding pair_body_Inr by (rule score_pairs_total)
  have 2: "pairs_table td tp (map ?raw ps) = Inr ?df"
    using assms by (simp add: pairs_table_def)
  have 3: "?ext (?raw p) = table_row sm td tp roster p" for p
    by (cases p) (simp add: table_row_def classified_extend)
  have "set ?df = ?ext ` ?raw ` set ps"
    by simp
  also have "\<dots> = table_row sm td tp roster ` set ps"
    using 3 by (simp add: image_image)
  finally have 4: "set ?df = table_row sm td tp roster ` set ps" .
  have "score \<circ> ?ext = score"
    by (rule ext) (simp add: score_extend)
  then have e: "map score ?df = map score (sort_key (\<lambda>r. - score r) (map ?raw ps))"
    by (simp only: map_map)
  have "sorted (map (\<lambda>r. - score r) (sort_key (\<lambda>r. - score r) (map ?raw ps)))"
    by (rule sorted_sort_key)
  then have "sorted (rev (map score (sort_key (\<lambda>r. - score r) (map ?raw ps))))"
    by (simp add: sorted_wrt_map sorted_wrt_rev)
  then have 5: "sorted (rev (map score ?df))"
    by (simp only: e)
  have 6: "length ?df = length ps"
    by simp
  show ?thesis
    unfolding 1 using 2 4 5 6 by (simp only: sum.case) blast
qed

lemma definite_pairs_set:
  assumes "set pairs_df = table_row sm td tp roster ` set ps"
  shows "set (definite_pairs pairs_df)
         = {(a, b). (a, b) \<in> set ps \<and> td \<le> fst (score_pair sm (roster ! a) (roster ! b))}"
proof (intro equalityI subsetI)
  fix x assume "x \<in> set (definite_pairs pairs_df)"
  then obtain r where r: "r \<in> set pairs_df" "match_class r = ''definite''" "x = (idx_a r, idx_b r)"
    by (auto simp: definite_pairs_def)
  with assms obtain a b where ab: "(a, b) \<in> set ps" "r = table_row sm td tp roster (a, b)"
    by auto
  with r show "x \<in> {(a, b). (a, b) \<in> set ps \<and> td \<le> fst (score_pair sm (roster ! a) (roster ! b))}"
    by (simp add: table_row_sel classify_definite)
next
  fix x
  assume "x \<in> {(a, b). (a, b) \<in> set ps \<and> td \<le> fst (score_pair sm (roster ! a) (roster ! b))}"
  then obtain a b where ab: "x = (a, b)" "(a, b) \<in> set ps"
    "td \<le> fst (score_pair sm (roster ! a) (roster ! b))"
    by auto
  let ?r = "table_row sm td tp roster (a, b)"
  from ab(2) assms have "?r \<in> set pairs_df"
    by auto
  moreover have "match_class ?r = ''definite''" "(idx_a ?r, idx_b ?r) = x"
    using ab by (simp_all add: table_row_sel classify_definite)
  ultimately show "x \<in> set (definite_pairs pairs_df)"
    unfolding definite_pairs_def by force
qed


lemma dedup_cluster_id_extend:
  "dedup_cluster_id (nprovider.extend r (dprovider.fields c)) = c"
  by (cases r) (simp add: nprovider.defs dprovider.defs)

lemma dedup_cluster_id_zip:
  assumes "length ids = length roster" and "i < length roster"
  shows "dedup_cluster_id (map (\<lambda>(r, c). nprovider.extend r (dprovider.fields c)) (zip roster ids) ! i)
         = ids ! i"
  using assms by (simp add: dedup_cluster_id_extend)

lemma provider_id_derive: "provider_id (derive r) = provider_id r"
  by (simp add: derive_def Let_def provider.defs nprovider.defs)

lemma clustered_cong:
  assumes "clustered n E pid p cl rf ids" and "\<And>j. j < n \<Longrightarrow> pid j = pid' j"
  shows "clustered n E pid' p cl rf ids"
proof -
  have "pid ` {j. j < n \<and> (i, j) \<in> linked n E} = pid' ` {j. j < n \<and> (i, j) \<in> linked n E}" for i
    using assms(2) by (intro image_cong) auto
  with assms(1) show ?thesis
    unfolding clustered_def by simp
qed

lemma dedupe_ok:
  assumes "candidate_pairs (build_blocks (map derive roster_df)) \<noteq> []"
  shows "\<exists>pairs_df p cl rf ids.
     dedupe sm td tp roster_df =
       Inr (pairs_df,
            map (\<lambda>(r, c). nprovider.extend r (dprovider.fields c)) (zip (map derive roster_df) ids),
            map snd (filter (\<lambda>(rt, c). length c > 1) cl)) \<and>
     set pairs_df = table_row sm td tp (map derive roster_df)
                      ` set (candidate_pairs (build_blocks (map derive roster_df))) \<and>
     cluster_records (length roster_df) (definite_pairs pairs_df) = Some (p, cl) \<and>
     clustered (length roster_df) (set (definite_pairs pairs_df))
       (\<lambda>i. provider_id (roster_df ! i)) p cl rf ids"
proof -
  let ?nr = "map derive roster_df"
  let ?n = "length roster_df"
  let ?cands = "candidate_pairs (build_blocks ?nr)"
  let ?pid = "\<lambda>i. provider_id (?nr ! i)"
  from pairs_table_rows[where sm = sm and roster = ?nr and td = td and tp = tp, OF assms]
  obtain pairs_df where
    t: "(case score_pairs (pair_body sm ?nr) ?cands of
          Inl e \<Rightarrow> Inl e
        | Inr pair_data \<Rightarrow> pairs_table td tp pair_data) = Inr pairs_df"
    "set pairs_df = table_row sm td tp ?nr ` set ?cands"
    by blast
  from t(1) obtain pair_data where pd: "score_pairs (pair_body sm ?nr) ?cands = Inr pair_data"
    "pairs_table td tp pair_data = Inr pairs_df"
    by (auto split: sum.splits)
  have "a < ?n \<and> b < ?n" if "(a, b) \<in> set (definite_pairs pairs_df)" for a b
  proof -
    from that have "(a, b) \<in> set ?cands"
      unfolding definite_pairs_set[OF t(2)] by simp
    then have "a < b \<and> b < length ?nr"
      unfolding candidates_iff by simp
    then show ?thesis
      by simp
  qed
  then have "\<forall>(a, b) \<in> set (definite_pairs pairs_df). a < ?n \<and> b < ?n"
    by blast
  from canonical_ids_ok[OF this, of ?pid] obtain p cl rf ids where
    c: "cluster_records ?n (definite_pairs pairs_df) = Some (p, cl)"
    "canonical_ids ?pid ?n (definite_pairs pairs_df) = Inr (cl, ids)"
    "clustered ?n (set (definite_pairs pairs_df)) ?pid p cl rf ids"
    by blast
  have d: "dedupe sm td tp roster_df =
       Inr (pairs_df,
            map (\<lambda>(r, c). nprovider.extend r (dprovider.fields c)) (zip ?nr ids),
            map snd (filter (\<lambda>(rt, c). length c > 1) cl))"
    unfolding dedupe_def dedupe_with_def Let_def by (simp add: pd c(2))
  have "clustered ?n (set (definite_pairs pairs_df)) (\<lambda>i. provider_id (roster_df ! i)) p cl rf ids"
    by (rule clustered_cong[OF c(3)]) (simp add: provider_id_derive)
  with d t(2) c(1) show ?thesis
    by blast
qed

subsection \<open>What a clustering gives\<close>

lemma linked_lt: "(x, y) \<in> linked n E \<Longrightarrow> x < n \<and> y < n"
  by (simp add: linked_def)

lemma linked_refl: "i < n \<Longrightarrow> (i, i) \<in> linked n E"
  by (simp add: linked_def)

lemma linked_sym: "(x, y) \<in> linked n E \<Longrightarrow> (y, x) \<in> linked n E"
proof -
  have "sym (E \<union> E\<inverse>)"
    by (auto simp: sym_def)
  then have "sym ((E \<union> E\<inverse>)\<^sup>*)"
    by (rule sym_rtrancl)
  then show "(x, y) \<in> linked n E \<Longrightarrow> (y, x) \<in> linked n E"
    by (auto simp: linked_def sym_def)
qed

lemma linked_trans: "(x, y) \<in> linked n E \<Longrightarrow> (y, z) \<in> linked n E \<Longrightarrow> (x, z) \<in> linked n E"
  by (auto simp: linked_def)

lemma linked_edge: "(a, b) \<in> E \<Longrightarrow> a < n \<Longrightarrow> b < n \<Longrightarrow> (a, b) \<in> linked n E"
  by (auto simp: linked_def)

lemma linked_class: 
  assumes "(x, y) \<in> linked n E"
  shows "{j. j < n \<and> (x, j) \<in> linked n E} = {j. j < n \<and> (y, j) \<in> linked n E}"
  using assms linked_sym linked_trans by blast

lemma two_in_list:
  assumes "x \<in> set v" and "y \<in> set v" and "x \<noteq> y"
  shows "length v > 1"
proof -
  from assms have "{x, y} \<subseteq> set v" "card {x, y} = 2"
    by auto
  then have "2 \<le> card (set v)"
    by (metis card_mono List.finite_set)
  also have "\<dots> \<le> length v"
    by (rule card_length)
  finally show ?thesis
    by simp
qed

lemma clustered_members:
  assumes "clustered n E pid p cl rf ids" and "i < n"
  shows "(rf i, filter (\<lambda>j. rf j = rf i) [0..<n]) \<in> set cl"
    and "set (filter (\<lambda>j. rf j = rf i) [0..<n]) = {j. j < n \<and> (i, j) \<in> linked n E}"
proof -
  let ?v = "filter (\<lambda>j. rf j = rf i) [0..<n]"
  from assms(2) have "i \<in> set ?v"
    by simp
  then have "?v \<noteq> []"
    by (metis empty_iff empty_set)
  with assms(1) show "(rf i, ?v) \<in> set cl"
    unfolding clustered_def by blast
  have "rf j = rf i \<longleftrightarrow> (i, j) \<in> linked n E" if "j < n" for j
    using assms that unfolding clustered_def by (metis (full_types))
  then show "set ?v = {j. j < n \<and> (i, j) \<in> linked n E}"
    by auto
qed

lemma clustered_ids:
  assumes "clustered n E pid p cl rf ids" and "i < n"
  shows "ids ! i = Min (pid ` {j. j < n \<and> (i, j) \<in> linked n E})"
  using assms unfolding clustered_def by blast

lemma clustered_linked:
  assumes c: "clustered n E pid p cl rf ids" and l: "(x, y) \<in> linked n E"
  shows "ids ! x = ids ! y"
    and "\<exists>px py r. uf_find p x = Some (px, r) \<and> uf_find p y = Some (py, r)"
    and "x \<noteq> y \<Longrightarrow> \<exists>c \<in> set (map snd (filter (\<lambda>(rt, c). length c > 1) cl)). x \<in> set c \<and> y \<in> set c"
proof -
  from l have xy: "x < n" "y < n"
    using linked_lt by blast+
  show "ids ! x = ids ! y"
    using clustered_ids[OF c xy(1)] clustered_ids[OF c xy(2)] linked_class[OF l] by simp
  from c xy l have rf: "rf x = rf y" "root_of p x (rf x)" "root_of p y (rf y)"
    unfolding clustered_def by blast+
  from uf_find_root[OF rf(2)] uf_find_root[OF rf(3)] rf(1)
  show "\<exists>px py r. uf_find p x = Some (px, r) \<and> uf_find p y = Some (py, r)"
    by auto
  assume ne: "x \<noteq> y"
  let ?v = "filter (\<lambda>j. rf j = rf x) [0..<n]"
  have v: "(rf x, ?v) \<in> set cl"
    by (rule clustered_members(1)[OF c xy(1)])
  have mem: "x \<in> set ?v" "y \<in> set ?v"
    using xy rf(1) by auto
  from two_in_list[OF mem ne] v have "?v \<in> set (map snd (filter (\<lambda>(rt, c). length c > 1) cl))"
    by force
  with mem show "\<exists>c \<in> set (map snd (filter (\<lambda>(rt, c). length c > 1) cl)). x \<in> set c \<and> y \<in> set c"
    by blast
qed

lemma clustered_multi:
  assumes c: "clustered n E pid p cl rf ids"
    and m: "v \<in> set (map snd (filter (\<lambda>(rt, c). length c > 1) cl))"
  shows "length v > 1" and "\<forall>m \<in> set v. m < n \<and> ids ! m = Min (pid ` set v)"
proof -
  from m obtain k where k: "(k, v) \<in> set cl" "length v > 1"
    by auto
  then show "length v > 1"
    by simp
  from k(1) c have v: "v = filter (\<lambda>i. rf i = k) [0..<n]"
    unfolding clustered_def by blast
  show "\<forall>m \<in> set v. m < n \<and> ids ! m = Min (pid ` set v)"
  proof
    fix m assume "m \<in> set v"
    with v have mn: "m < n" and "rf m = k"
      by auto
    with v have "v = filter (\<lambda>j. rf j = rf m) [0..<n]"
      by simp
    with clustered_members(2)[OF c mn] have "set v = {j. j < n \<and> (m, j) \<in> linked n E}"
      by simp
    with clustered_ids[OF c mn] mn show "m < n \<and> ids ! m = Min (pid ` set v)"
      by simp
  qed
qed

lemma clustered_single:
  assumes c: "clustered n E pid p cl rf ids" and i: "i < n"
    and s: "\<forall>v \<in> set (map snd (filter (\<lambda>(rt, c). length c > 1) cl)). i \<notin> set v"
  shows "ids ! i = pid i"
proof -
  let ?v = "filter (\<lambda>j. rf j = rf i) [0..<n]"
  have v: "(rf i, ?v) \<in> set cl" and sv: "set ?v = {j. j < n \<and> (i, j) \<in> linked n E}"
    by (rule clustered_members[OF c i])+
  have iv: "i \<in> set ?v"
    using i by simp
  have "\<not> length ?v > 1"
  proof
    assume "length ?v > 1"
    with v have "?v \<in> set (map snd (filter (\<lambda>(rt, c). length c > 1) cl))"
      by force
    with s iv show False
      by blast
  qed
  have "set ?v = {i}"
  proof (rule ccontr)
    assume "set ?v \<noteq> {i}"
    with iv obtain j where "j \<in> set ?v" "j \<noteq> i"
      by blast
    from two_in_list[OF iv this(1)] this(2) \<open>\<not> length ?v > 1\<close> show False
      by simp
  qed
  with sv clustered_ids[OF c i] show ?thesis
    by simp
qed

lemma clustered_unique:
  assumes "clustered n E pid p cl rf ids" and "clustered n E pid p' cl' rf' ids'"
  shows "ids = ids'"
proof (rule nth_equalityI)
  show "length ids = length ids'"
    using assms unfolding clustered_def by simp
next
  fix i assume "i < length ids"
  with assms(1) have "i < n"
    unfolding clustered_def by simp
  from clustered_ids[OF assms(1) this] clustered_ids[OF assms(2) this] show "ids ! i = ids' ! i"
    by simp
qed

section \<open>Definite pairs and clusters\<close>

lemma dedupe_empty:
  assumes "candidate_pairs (build_blocks (map derive roster_df)) = []"
  shows "dedupe sm td tp roster_df = Inl (KeyError ''score'')"
  using assms by (simp add: dedupe_def dedupe_with_def Let_def pairs_table_def)

lemma dedupe_Inr:
  assumes "dedupe sm td tp roster_df = Inr (pairs_df, ro, multi)"
  shows "\<exists>p cl rf ids.
     ro = map (\<lambda>(r, c). nprovider.extend r (dprovider.fields c)) (zip (map derive roster_df) ids) \<and>
     multi = map snd (filter (\<lambda>(rt, c). length c > 1) cl) \<and>
     set pairs_df = table_row sm td tp (map derive roster_df)
                      ` set (candidate_pairs (build_blocks (map derive roster_df))) \<and>
     cluster_records (length roster_df) (definite_pairs pairs_df) = Some (p, cl) \<and>
     clustered (length roster_df) (set (definite_pairs pairs_df))
       (\<lambda>i. provider_id (roster_df ! i)) p cl rf ids"
proof -
  have "candidate_pairs (build_blocks (map derive roster_df)) \<noteq> []"
    using dedupe_empty[of roster_df sm td tp] assms by auto
  from dedupe_ok[OF this, of sm td tp] assms show ?thesis
    by auto
qed

lemma clustered_ro:
  assumes "clustered (length roster_df) E pid p cl rf ids" and "i < length roster_df"
  shows "dedup_cluster_id
           (map (\<lambda>(r, c). nprovider.extend r (dprovider.fields c)) (zip (map derive roster_df) ids) ! i)
         = ids ! i"
proof -
  from assms(1) have "length ids = length (map derive roster_df)"
    unfolding clustered_def by simp
  from dedup_cluster_id_zip[OF this] assms(2) show ?thesis
    by simp
qed

lemma definite_in_range:
  assumes "set pairs_df = table_row sm td tp roster ` set (candidate_pairs (build_blocks roster))"
    and "(a, b) \<in> set (definite_pairs pairs_df)"
  shows "a < b \<and> b < length roster"
proof -
  from assms have "(a, b) \<in> set (candidate_pairs (build_blocks roster))"
    unfolding definite_pairs_set[OF assms(1)] by simp
  then show ?thesis
    unfolding candidates_iff by simp
qed

lemma definite_row_linked:
  assumes t: "set pairs_df = table_row sm td tp roster ` set (candidate_pairs (build_blocks roster))"
    and r: "r \<in> set pairs_df" "match_class r = ''definite''" "{idx_a r, idx_b r} = {x, y}"
  shows "(x, y) \<in> linked (length roster) (set (definite_pairs pairs_df)) \<and> x \<noteq> y"
proof -
  let ?E = "set (definite_pairs pairs_df)"
  from r(1,2) have e: "(idx_a r, idx_b r) \<in> ?E"
    by (force simp: definite_pairs_def)
  from definite_in_range[OF t e] have lt: "idx_a r < idx_b r" "idx_b r < length roster"
    by auto
  then have l: "(idx_a r, idx_b r) \<in> linked (length roster) ?E"
    using linked_edge[OF e] by simp
  from r(3) lt(1) consider "idx_a r = x" "idx_b r = y" | "idx_a r = y" "idx_b r = x"
    by (auto simp: doubleton_eq_iff)
  then show ?thesis
  proof cases
    case 1
    with l lt show ?thesis
      by auto
  next
    case 2
    with linked_sym[OF l] lt show ?thesis
      by auto
  qed
qed

lemma clustered_linked_class:
  assumes c: "clustered n E pid p cl rf ids" and l: "(x, y) \<in> linked n E" and ne: "x \<noteq> y"
  shows "\<exists>v \<in> set (map snd (filter (\<lambda>(rt, c). length c > 1) cl)).
           set v = {j. j < n \<and> (x, j) \<in> linked n E}"
proof -
  from l have xy: "x < n" "y < n"
    using linked_lt by blast+
  let ?v = "filter (\<lambda>j. rf j = rf x) [0..<n]"
  have v: "(rf x, ?v) \<in> set cl" and sv: "set ?v = {j. j < n \<and> (x, j) \<in> linked n E}"
    by (rule clustered_members[OF c xy(1)])+
  from sv xy l linked_refl[OF xy(1)] have "x \<in> set ?v" "y \<in> set ?v"
    by auto
  from two_in_list[OF this ne] v have "?v \<in> set (map snd (filter (\<lambda>(rt, c). length c > 1) cl))"
    by force
  with sv show ?thesis
    by blast
qed

text \<open>
  C5. When the rows of the pairs table for A-B and for B-C are both definite, the three
  records have the same root in the parent array at the end of the clustering, are
  members of one cluster in the list \<open>dedupe\<close> returns, and get the same
  \<open>dedup_cluster_id\<close>. Nothing is assumed of the pair A-C.
\<close>

theorem definite_chain_same_cluster:
  assumes "dedupe sm td tp roster_df = Inr (pairs_df, ro, multi)"
    and "r1 \<in> set pairs_df" and "match_class r1 = ''definite''" and "{idx_a r1, idx_b r1} = {A, B}"
    and "r2 \<in> set pairs_df" and "match_class r2 = ''definite''" and "{idx_a r2, idx_b r2} = {B, C}"
  shows "(\<exists>p cl r pa pb pc.
            cluster_records (length roster_df) (definite_pairs pairs_df) = Some (p, cl) \<and>
            uf_find p A = Some (pa, r) \<and> uf_find p B = Some (pb, r) \<and>
            uf_find p C = Some (pc, r)) \<and>
         (\<exists>c \<in> set multi. A \<in> set c \<and> B \<in> set c \<and> C \<in> set c) \<and>
         dedup_cluster_id (ro ! A) = dedup_cluster_id (ro ! B) \<and>
         dedup_cluster_id (ro ! B) = dedup_cluster_id (ro ! C)"
proof -
  let ?n = "length roster_df"
  let ?E = "set (definite_pairs pairs_df)"
  from dedupe_Inr[OF assms(1)] obtain p cl rf ids where
    d: "ro = map (\<lambda>(r, c). nprovider.extend r (dprovider.fields c)) (zip (map derive roster_df) ids)"
    "multi = map snd (filter (\<lambda>(rt, c). length c > 1) cl)"
    "set pairs_df = table_row sm td tp (map derive roster_df)
                      ` set (candidate_pairs (build_blocks (map derive roster_df)))"
    "cluster_records ?n (definite_pairs pairs_df) = Some (p, cl)"
    "clustered ?n ?E (\<lambda>i. provider_id (roster_df ! i)) p cl rf ids"
    by blast
  from definite_row_linked[OF d(3) assms(2,3,4)] have ab: "(A, B) \<in> linked ?n ?E" "A \<noteq> B"
    by simp_all
  from definite_row_linked[OF d(3) assms(5,6,7)] have bc: "(B, C) \<in> linked ?n ?E"
    by simp
  from ab bc have ac: "(A, C) \<in> linked ?n ?E"
    using linked_trans by blast
  from ab ac have lt: "A < ?n" "B < ?n" "C < ?n"
    using linked_lt by blast+
  from clustered_linked(2)[OF d(5) ab(1)] obtain pa pb r where
    1: "uf_find p A = Some (pa, r)" "uf_find p B = Some (pb, r)"
    by blast
  from clustered_linked(2)[OF d(5) bc] 1(2) obtain pc where
    2: "uf_find p C = Some (pc, r)"
    by auto
  from clustered_linked_class[OF d(5) ab] obtain c where
    c: "c \<in> set multi" "set c = {j. j < ?n \<and> (A, j) \<in> linked ?n ?E}"
    unfolding d(2) by blast
  from c(2) lt ab ac linked_refl[OF lt(1)] have 3: "A \<in> set c \<and> B \<in> set c \<and> C \<in> set c"
    by simp
  have 4: "dedup_cluster_id (ro ! A) = dedup_cluster_id (ro ! B)"
    unfolding d(1) clustered_ro[OF d(5) lt(1)] clustered_ro[OF d(5) lt(2)]
    by (rule clustered_linked(1)[OF d(5) ab(1)])
  have 5: "dedup_cluster_id (ro ! B) = dedup_cluster_id (ro ! C)"
    unfolding d(1) clustered_ro[OF d(5) lt(2)] clustered_ro[OF d(5) lt(3)]
    by (rule clustered_linked(1)[OF d(5) bc])
  from d(4) 1 2 c(1) 3 4 5 show ?thesis
    by blast
qed

section \<open>The canonical identifier of a cluster\<close>

lemma ro_ids:
  assumes "clustered (length roster_df) E pid p cl rf ids"
  shows "map dedup_cluster_id
           (map (\<lambda>(r, c). nprovider.extend r (dprovider.fields c)) (zip (map derive roster_df) ids))
         = ids"
proof (rule nth_equalityI)
  from assms have len: "length ids = length roster_df"
    unfolding clustered_def by simp
  then show "length (map dedup_cluster_id
           (map (\<lambda>(r, c). nprovider.extend r (dprovider.fields c)) (zip (map derive roster_df) ids)))
         = length ids"
    by simp
  fix i
  assume "i < length (map dedup_cluster_id
           (map (\<lambda>(r, c). nprovider.extend r (dprovider.fields c)) (zip (map derive roster_df) ids)))"
  with len have i: "i < length roster_df"
    by simp
  with len clustered_ro[OF assms i] show "map dedup_cluster_id
           (map (\<lambda>(r, c). nprovider.extend r (dprovider.fields c)) (zip (map derive roster_df) ids)) ! i
         = ids ! i"
    by simp
qed

text \<open>
  C4. In the result of \<open>dedupe\<close>, every member of a returned cluster (the clusters of more
  than one record) has as \<open>dedup_cluster_id\<close> the least \<open>provider_id\<close> of the cluster's
  members in the lexicographic order of strings, every record outside these clusters has
  its own \<open>provider_id\<close>, and the definite pairs processed in any other order, or more
  than once, give the same column.
\<close>

theorem canonical_id_min:
  assumes "dedupe sm td tp roster_df = Inr (pairs_df, ro, multi)"
  shows "(\<forall>c \<in> set multi. length c > 1 \<and>
            (\<forall>m \<in> set c. m < length roster_df \<and>
               dedup_cluster_id (ro ! m) = Min ((\<lambda>j. provider_id (roster_df ! j)) ` set c))) \<and>
         (\<forall>i < length roster_df. (\<forall>c \<in> set multi. i \<notin> set c) \<longrightarrow>
            dedup_cluster_id (ro ! i) = provider_id (roster_df ! i)) \<and>
         (\<forall>defs'. set defs' = set (definite_pairs pairs_df) \<longrightarrow>
            (\<exists>cl'. canonical_ids (\<lambda>i. provider_id (roster_df ! i)) (length roster_df) defs'
                     = Inr (cl', map dedup_cluster_id ro)))"
proof -
  let ?n = "length roster_df"
  let ?E = "set (definite_pairs pairs_df)"
  let ?pid = "\<lambda>i. provider_id (roster_df ! i)"
  from dedupe_Inr[OF assms] obtain p cl rf ids where
    d: "ro = map (\<lambda>(r, c). nprovider.extend r (dprovider.fields c)) (zip (map derive roster_df) ids)"
    "multi = map snd (filter (\<lambda>(rt, c). length c > 1) cl)"
    "set pairs_df = table_row sm td tp (map derive roster_df)
                      ` set (candidate_pairs (build_blocks (map derive roster_df)))"
    "clustered ?n ?E ?pid p cl rf ids"
    by blast
  have 1: "length c > 1 \<and> (\<forall>m \<in> set c. m < ?n \<and> dedup_cluster_id (ro ! m) = Min (?pid ` set c))"
    if "c \<in> set multi" for c
  proof -
    from that have c: "c \<in> set (map snd (filter (\<lambda>(rt, c). length c > 1) cl))"
      by (simp only: d(2))
    note m = clustered_multi[OF d(4) c]
    have "m < ?n \<and> dedup_cluster_id (ro ! m) = Min (?pid ` set c)" if "m \<in> set c" for m
    proof -
      from m(2) that have "m < ?n" "ids ! m = Min (?pid ` set c)"
        by auto
      with clustered_ro[OF d(4) this(1)] show ?thesis
        unfolding d(1) by simp
    qed
    with m(1) show ?thesis
      by blast
  qed
  have 2: "dedup_cluster_id (ro ! i) = ?pid i" if "i < ?n" "\<forall>c \<in> set multi. i \<notin> set c" for i
  proof -
    from that(2) have "\<forall>v \<in> set (map snd (filter (\<lambda>(rt, c). length c > 1) cl)). i \<notin> set v"
      by (simp only: d(2))
    from clustered_single[OF d(4) that(1) this] clustered_ro[OF d(4) that(1)] show ?thesis
      unfolding d(1) by simp
  qed
  have 3: "\<exists>cl'. canonical_ids ?pid ?n defs' = Inr (cl', map dedup_cluster_id ro)"
    if "set defs' = ?E" for defs'
  proof -
    have "a < ?n \<and> b < ?n" if "(a, b) \<in> set defs'" for a b
      using definite_in_range[OF d(3), of a b] that \<open>set defs' = ?E\<close> by simp
    then have "\<forall>(a, b) \<in> set defs'. a < ?n \<and> b < ?n"
      by blast
    from canonical_ids_ok[OF this, of ?pid] obtain p' cl' rf' ids' where
      c: "canonical_ids ?pid ?n defs' = Inr (cl', ids')" "clustered ?n (set defs') ?pid p' cl' rf' ids'"
      by blast
    from c(2) that have "clustered ?n ?E ?pid p' cl' rf' ids'"
      by simp
    from clustered_unique[OF d(4) this] have "ids' = ids"
      by simp
    with c(1) ro_ids[OF d(4)] show ?thesis
      unfolding d(1) by simp
  qed
  from 1 2 3 show ?thesis
    by blast
qed

lemma definite_pair_cluster:
  assumes c: "(a, b) \<in> set (candidate_pairs (build_blocks (map derive roster_df)))"
    and s: "td \<le> fst (score_pair sm (map derive roster_df ! a) (map derive roster_df ! b))"
  shows "\<exists>pairs_df ro multi. dedupe sm td tp roster_df = Inr (pairs_df, ro, multi) \<and>
           table_row sm td tp (map derive roster_df) (a, b) \<in> set pairs_df \<and>
           (\<exists>c \<in> set multi. a \<in> set c \<and> b \<in> set c) \<and>
           dedup_cluster_id (ro ! a) = dedup_cluster_id (ro ! b)"
proof -
  let ?nr = "map derive roster_df"
  let ?n = "length roster_df"
  from c have "candidate_pairs (build_blocks ?nr) \<noteq> []"
    by auto
  from dedupe_ok[OF this, of sm td tp] obtain pairs_df p cl rf ids where
    d: "dedupe sm td tp roster_df =
       Inr (pairs_df,
            map (\<lambda>(r, c). nprovider.extend r (dprovider.fields c)) (zip ?nr ids),
            map snd (filter (\<lambda>(rt, c). length c > 1) cl))"
    "set pairs_df = table_row sm td tp ?nr ` set (candidate_pairs (build_blocks ?nr))"
    "clustered ?n (set (definite_pairs pairs_df)) (\<lambda>i. provider_id (roster_df ! i)) p cl rf ids"
    by blast
  let ?E = "set (definite_pairs pairs_df)"
  from c d(2) have row: "table_row sm td tp ?nr (a, b) \<in> set pairs_df"
    by simp
  from c s have e: "(a, b) \<in> ?E"
    unfolding definite_pairs_set[OF d(2)] by simp
  from c have lt: "a < b" "b < ?n"
    unfolding candidates_iff by simp_all
  then have "a < ?n"
    by simp
  from linked_edge[OF e this lt(2)] have l: "(a, b) \<in> linked ?n ?E" .
  from lt have ne: "a \<noteq> b"
    by simp
  note cl = clustered_linked[OF d(3) l]
  have "dedup_cluster_id (map (\<lambda>(r, c). nprovider.extend r (dprovider.fields c)) (zip ?nr ids) ! a)
        = dedup_cluster_id (map (\<lambda>(r, c). nprovider.extend r (dprovider.fields c)) (zip ?nr ids) ! b)"
    unfolding clustered_ro[OF d(3) \<open>a < ?n\<close>] clustered_ro[OF d(3) lt(2)] by (rule cl(1))
  with d(1) row cl(3)[OF ne] show ?thesis
    by blast
qed

lemma seq_ratio_nonneg: "0 \<le> sm a b \<Longrightarrow> 0 \<le> seq_ratio sm a b"
  by (simp add: seq_ratio_def)

lemma npi_eq_no_conflict: "npi_eq ra rb \<Longrightarrow> \<not> npi_conflict ra rb"
  by (simp add: npi_eq_def npi_conflict_def)

text \<open>
  C6. A candidate pair with equal non-empty NPIs and equal non-empty license state and
  number scores at least 11, is classified definite under the default thresholds, and
  its two records are in one returned cluster with one \<open>dedup_cluster_id\<close>. The
  similarity ratio of the two names is assumed non-negative, as a ratio in [0, 1] is.
\<close>

theorem npi_license_definite:
  assumes "(a, b) \<in> set (candidate_pairs (build_blocks (map derive roster_df)))"
    and "npi_eq (map derive roster_df ! a) (map derive roster_df ! b)"
    and "lic_eq (map derive roster_df ! a) (map derive roster_df ! b)"
    and "0 \<le> sm (name_norm (map derive roster_df ! a)) (name_norm (map derive roster_df ! b))"
  shows "\<exists>pairs_df ro multi. dedupe sm 5 3 roster_df = Inr (pairs_df, ro, multi) \<and>
           (\<exists>r \<in> set pairs_df. idx_a r = a \<and> idx_b r = b \<and> 11 \<le> score r \<and>
              match_class r = ''definite'') \<and>
           (\<exists>c \<in> set multi. a \<in> set c \<and> b \<in> set c) \<and>
           dedup_cluster_id (ro ! a) = dedup_cluster_id (ro ! b)"
proof -
  let ?ra = "map derive roster_df ! a" and ?rb = "map derive roster_df ! b"
  have "0 \<le> seq_ratio sm (name_norm ?ra) (name_norm ?rb) * 3"
    using assms(4) by (simp add: seq_ratio_def)
  moreover have "0 \<le> token_overlap (name_norm ?ra) (name_norm ?rb)"
    "0 \<le> token_overlap (addr_norm ?ra) (addr_norm ?rb) * (8 / 10)"
    using token_overlap_nonneg by simp_all
  ultimately have s: "11 \<le> fst (score_pair sm ?ra ?rb)"
    unfolding score_pair_fst using assms(2,3) npi_eq_no_conflict[OF assms(2)] by simp
  then have "5 \<le> fst (score_pair sm ?ra ?rb)"
    by simp
  from definite_pair_cluster[OF assms(1) this, of 3] obtain pairs_df ro multi where
    d: "dedupe sm 5 3 roster_df = Inr (pairs_df, ro, multi)"
    "table_row sm 5 3 (map derive roster_df) (a, b) \<in> set pairs_df"
    "\<exists>c \<in> set multi. a \<in> set c \<and> b \<in> set c"
    "dedup_cluster_id (ro ! a) = dedup_cluster_id (ro ! b)"
    by blast
  let ?r = "table_row sm 5 3 (map derive roster_df) (a, b)"
  have "idx_a ?r = a \<and> idx_b ?r = b \<and> 11 \<le> score ?r \<and> match_class ?r = ''definite''"
    using s by (simp add: table_row_sel classify_def)
  with d show ?thesis
    by blast
qed

section \<open>Scores of particular pairs\<close>

lemma token_overlap_empty: "token_overlap [] [] = 1"
  by (simp add: token_overlap_def name_tokens_def)

lemma table_row_ex:
  assumes "table_row sm td tp roster (a, b) \<in> set pairs_df"
    and "P (table_row sm td tp roster (a, b))"
  shows "\<exists>r \<in> set pairs_df. idx_a r = a \<and> idx_b r = b \<and> P r"
  using assms by (intro bexI[of _ "table_row sm td tp roster (a, b)"]) (simp_all add: table_row_sel)

text \<open>
  C10, as the code has it. Two records with empty normalized names and addresses and an
  equal non-empty phone last-4, with no NPI, license or taxonomy bonus and no NPI
  conflict, are a candidate pair; its score is 6.3 (3.0 + 1.0 + 1.5 + 0.8), it is
  classified definite under the default thresholds, and the two records are merged.
\<close>

theorem empty_names_phone_pair:
  assumes "a < b" and "b < length roster_df"
    and "name_norm (map derive roster_df ! a) = []" and "name_norm (map derive roster_df ! b) = []"
    and "addr_norm (map derive roster_df ! a) = []" and "addr_norm (map derive roster_df ! b) = []"
    and "ph4_eq (map derive roster_df ! a) (map derive roster_df ! b)"
    and "\<not> npi_eq (map derive roster_df ! a) (map derive roster_df ! b)"
    and "\<not> lic_eq (map derive roster_df ! a) (map derive roster_df ! b)"
    and "\<not> tax_eq (map derive roster_df ! a) (map derive roster_df ! b)"
    and "\<not> npi_conflict (map derive roster_df ! a) (map derive roster_df ! b)"
  shows "(a, b) \<in> set (candidate_pairs (build_blocks (map derive roster_df))) \<and>
         (\<exists>pairs_df ro multi. dedupe sm 5 3 roster_df = Inr (pairs_df, ro, multi) \<and>
            (\<exists>r \<in> set pairs_df. idx_a r = a \<and> idx_b r = b \<and>
               (score r = 63 / 10 \<and> match_class r = ''definite'')) \<and>
            (\<exists>c \<in> set multi. a \<in> set c \<and> b \<in> set c) \<and>
            dedup_cluster_id (ro ! a) = dedup_cluster_id (ro ! b))"
proof -
  let ?nr = "map derive roster_df"
  let ?ra = "?nr ! a" and ?rb = "?nr ! b"
  let ?k = "''PH4::'' @ phone_last4_c ?ra"
  from assms(7) have "?k \<in> set (block_keys ?ra)" "?k \<in> set (block_keys ?rb)"
    unfolding block_keys_iff ph4_eq_def by simp_all
  then have "set (block_keys ?ra) \<inter> set (block_keys ?rb) \<noteq> {}"
    by blast
  with assms(1,2) have c: "(a, b) \<in> set (candidate_pairs (build_blocks ?nr))"
    unfolding candidates_iff by simp
  have s: "fst (score_pair sm ?ra ?rb) = 63 / 10"
    unfolding score_pair_fst using assms(3-11)
    by (simp add: seq_ratio_def token_overlap_empty)
  then have "5 \<le> fst (score_pair sm ?ra ?rb)"
    by simp
  from definite_pair_cluster[OF c this, of 3] obtain pairs_df ro multi where
    d: "dedupe sm 5 3 roster_df = Inr (pairs_df, ro, multi)"
    "table_row sm 5 3 ?nr (a, b) \<in> set pairs_df"
    "\<exists>c \<in> set multi. a \<in> set c \<and> b \<in> set c"
    "dedup_cluster_id (ro ! a) = dedup_cluster_id (ro ! b)"
    by blast
  have "score (table_row sm 5 3 ?nr (a, b)) = 63 / 10 \<and>
        match_class (table_row sm 5 3 ?nr (a, b)) = ''definite''"
    using s by (simp add: table_row_sel classify_def)
  from table_row_ex[where P = "\<lambda>r. score r = 63 / 10 \<and> match_class r = ''definite''", OF d(2) this]
  have "\<exists>r \<in> set pairs_df. idx_a r = a \<and> idx_b r = b \<and>
          (score r = 63 / 10 \<and> match_class r = ''definite'')" .
  with c d(1,3,4) show ?thesis
    by blast
qed

text \<open>
  C1, as the code has it. A candidate pair with identical non-empty names of similarity
  1.0, identical address token sets, two different non-empty NPIs neither of which is
  the string \<open>nan\<close>, and empty phone, taxonomy and license values has the score
  3.0 + 1.0 + 0.8 - 4.0: the token overlap of the identical names adds 1.0. Over the real
  numbers the sum is 0.8; the doubles of the code give 0.7999999999999998. The statement
  is the bound that both satisfy: the score is within \<open>10\<^sup>-\<^sup>9\<close> of 0.8. The pair is
  classified nonmatch under the default thresholds.
\<close>

theorem npi_conflict_override:
  assumes "(a, b) \<in> set (candidate_pairs (build_blocks (map derive roster_df)))"
    and "name_norm (map derive roster_df ! a) = name_norm (map derive roster_df ! b)"
    and "name_norm (map derive roster_df ! a) \<noteq> []"
    and "sm (name_norm (map derive roster_df ! a)) (name_norm (map derive roster_df ! b)) = 1"
    and "set (name_tokens (addr_norm (map derive roster_df ! a)))
         = set (name_tokens (addr_norm (map derive roster_df ! b)))"
    and "set (name_tokens (addr_norm (map derive roster_df ! a))) \<noteq> {}"
    and "npi_norm (map derive roster_df ! a) \<noteq> []" and "npi_norm (map derive roster_df ! b) \<noteq> []"
    and "npi_norm (map derive roster_df ! a) \<noteq> npi_norm (map derive roster_df ! b)"
    and "npi_norm (map derive roster_df ! a) \<noteq> ''nan''"
    and "npi_norm (map derive roster_df ! b) \<noteq> ''nan''"
    and "phone_last4_c (map derive roster_df ! a) = []"
    and "phone_last4_c (map derive roster_df ! b) = []"
    and "tax_norm (map derive roster_df ! a) = []" and "tax_norm (map derive roster_df ! b) = []"
    and "license_norm (map derive roster_df ! a) = []"
    and "license_norm (map derive roster_df ! b) = []"
  shows "\<exists>pairs_df ro multi. dedupe sm 5 3 roster_df = Inr (pairs_df, ro, multi) \<and>
           (\<exists>r \<in> set pairs_df. idx_a r = a \<and> idx_b r = b \<and>
              (\<bar>score r - 8 / 10\<bar> \<le> 1 / 10 ^ 9 \<and> match_class r = ''nonmatch'' \<and>
               reasons r = [''npi_conflict'']))"
proof -
  let ?nr = "map derive roster_df"
  let ?ra = "?nr ! a" and ?rb = "?nr ! b"
  have sig: "\<not> npi_eq ?ra ?rb" "\<not> lic_eq ?ra ?rb" "\<not> ph4_eq ?ra ?rb" "\<not> tax_eq ?ra ?rb"
    "npi_conflict ?ra ?rb"
    using assms(7-17) by (simp_all add: npi_eq_def lic_eq_def ph4_eq_def tax_eq_def npi_conflict_def)
  have n: "seq_ratio sm (name_norm ?ra) (name_norm ?rb) = 1"
    using assms(3,4) by (simp add: seq_ratio_def)
  have t: "token_overlap (name_norm ?ra) (name_norm ?rb) = 1"
    using assms(2) by (simp add: token_overlap_same)
  have ad: "token_overlap (addr_norm ?ra) (addr_norm ?rb) = 1"
    using assms(5) by (rule token_overlap_same)
  have s: "fst (score_pair sm ?ra ?rb) = 8 / 10"
    unfolding score_pair_fst using sig n t ad by simp
  have rs: "snd (score_pair sm ?ra ?rb) = [''npi_conflict'']"
    unfolding score_pair_snd using sig by simp
  from assms(1) have "candidate_pairs (build_blocks ?nr) \<noteq> []"
    by auto
  from dedupe_ok[OF this, of sm 5 3] obtain pairs_df ro multi where
    d: "dedupe sm 5 3 roster_df = Inr (pairs_df, ro, multi)"
    "set pairs_df = table_row sm 5 3 ?nr ` set (candidate_pairs (build_blocks ?nr))"
    by blast
  from assms(1) d(2) have row: "table_row sm 5 3 ?nr (a, b) \<in> set pairs_df"
    by simp
  have "\<bar>score (table_row sm 5 3 ?nr (a, b)) - 8 / 10\<bar> \<le> 1 / 10 ^ 9 \<and>
        match_class (table_row sm 5 3 ?nr (a, b)) = ''nonmatch'' \<and>
        reasons (table_row sm 5 3 ?nr (a, b)) = [''npi_conflict'']"
    using s rs by (simp add: table_row_sel classify_def)
  from table_row_ex[where P = "\<lambda>r. \<bar>score r - 8 / 10\<bar> \<le> 1 / 10 ^ 9 \<and>
         match_class r = ''nonmatch'' \<and> reasons r = [''npi_conflict'']", OF row this]
  have "\<exists>r \<in> set pairs_df. idx_a r = a \<and> idx_b r = b \<and>
          (\<bar>score r - 8 / 10\<bar> \<le> 1 / 10 ^ 9 \<and> match_class r = ''nonmatch'' \<and>
           reasons r = [''npi_conflict''])" .
  with d(1) show ?thesis
    by blast
qed

text \<open>
  C9. A record whose \<open>npi_norm\<close> is the string \<open>nan\<close> is in no block with an NPI key; a pair
  with such a record incurs no NPI-conflict penalty, so its score is the sum of the
  other terms; and a pair of two such records gets the NPI bonus: its score is 6.0 above
  the score the same pair has with both NPIs empty.
\<close>

theorem nan_npi_asymmetry:
  "(npi_norm (roster ! i) = ''nan'' \<longrightarrow>
      (\<forall>k v. (k, v) \<in> set (build_blocks roster) \<and> take 5 k = ''NPI::'' \<longrightarrow> i \<notin> set v)) \<and>
   (npi_norm ra = ''nan'' \<or> npi_norm rb = ''nan'' \<longrightarrow>
      \<not> npi_conflict ra rb \<and> ''npi_conflict'' \<notin> set (snd (score_pair sm ra rb)) \<and>
      fst (score_pair sm ra rb) =
        (if npi_eq ra rb then 6 else 0) + (if lic_eq ra rb then 5 else 0) +
        seq_ratio sm (name_norm ra) (name_norm rb) * 3 +
        token_overlap (name_norm ra) (name_norm rb) +
        (if ph4_eq ra rb then 15 / 10 else 0) +
        token_overlap (addr_norm ra) (addr_norm rb) * (8 / 10) +
        (if tax_eq ra rb then 6 / 10 else 0)) \<and>
   (npi_norm ra = ''nan'' \<and> npi_norm rb = ''nan'' \<longrightarrow>
      npi_eq ra rb \<and> ''npi_eq'' \<in> set (snd (score_pair sm ra rb)) \<and>
      fst (score_pair sm ra rb) =
        6 + fst (score_pair sm (ra\<lparr>npi_norm := []\<rparr>) (rb\<lparr>npi_norm := []\<rparr>)))"
proof (intro conjI impI allI)
  fix k v
  assume nan: "npi_norm (roster ! i) = ''nan''"
    and kv: "(k, v) \<in> set (build_blocks roster) \<and> take 5 k = ''NPI::''"
  show "i \<notin> set v"
  proof
    assume "i \<in> set v"
    with kv build_blocks_mem[of k v roster] have "k \<in> set (block_keys (roster ! i))"
      by simp
    with nan kv show False
      unfolding block_keys_iff by auto
  qed
next
  assume a: "npi_norm ra = ''nan'' \<or> npi_norm rb = ''nan''"
  then show nc: "\<not> npi_conflict ra rb"
    by (auto simp: npi_conflict_def)
  then show "''npi_conflict'' \<notin> set (snd (score_pair sm ra rb))"
    unfolding score_pair_snd by simp
  from nc show "fst (score_pair sm ra rb) =
        (if npi_eq ra rb then 6 else 0) + (if lic_eq ra rb then 5 else 0) +
        seq_ratio sm (name_norm ra) (name_norm rb) * 3 +
        token_overlap (name_norm ra) (name_norm rb) +
        (if ph4_eq ra rb then 15 / 10 else 0) +
        token_overlap (addr_norm ra) (addr_norm rb) * (8 / 10) +
        (if tax_eq ra rb then 6 / 10 else 0)"
    unfolding score_pair_fst by simp
next
  assume a: "npi_norm ra = ''nan'' \<and> npi_norm rb = ''nan''"
  then show e: "npi_eq ra rb"
    by (simp add: npi_eq_def)
  then show "''npi_eq'' \<in> set (snd (score_pair sm ra rb))"
    unfolding score_pair_snd by simp
  from a e show "fst (score_pair sm ra rb) =
        6 + fst (score_pair sm (ra\<lparr>npi_norm := []\<rparr>) (rb\<lparr>npi_norm := []\<rparr>))"
    unfolding score_pair_fst
    by (simp add: npi_eq_def lic_eq_def ph4_eq_def tax_eq_def npi_conflict_def)
qed

section \<open>An exception in the scoring loop\<close>



section \<open>Instances on the example data\<close>

theorem score_monotone_witness:
  "fst (score_pair ratio_eq
          (derive (example_row ''P1'' ''John Smith'' ''111'' [] [] [] ''1 Main St'' []))
          (derive (example_row ''P2'' ''Jon Smith'' [] [] [] [] ''1 Main St'' [])))
   \<le> fst (score_pair ratio_eq
          (derive (example_row ''P1'' ''John Smith'' ''111'' [] [] [] ''1 Main St'' []))
          (derive (example_row ''P2'' ''John Smith'' ''111'' [] [] [] ''1 Main St'' [])))"
  by (rule score_monotone) code_simp+

text \<open>
  The license key does not determine the state and the number: the two records of
  \<open>colliding_roster\<close> differ in both and are a candidate pair through the key
  \<open>LIC::A::B::C\<close>.
\<close>

lemma license_key_collision:
  "(0, 1) \<in> set (candidate_pairs (build_blocks (map derive colliding_roster))) \<and>
   npi_norm (map derive colliding_roster ! 0) = [] \<and>
   last_pref (map derive colliding_roster ! 0) = [] \<and>
   phone_last4_c (map derive colliding_roster ! 0) = [] \<and>
   tax_norm (map derive colliding_roster ! 0) = [] \<and>
   license_state_norm (map derive colliding_roster ! 0) = ''A::B'' \<and>
   license_state_norm (map derive colliding_roster ! 1) = ''A'' \<and>
   license_norm (map derive colliding_roster ! 0) = ''C'' \<and>
   license_norm (map derive colliding_roster ! 1) = ''B::C''"
  by code_simp

theorem candidates_share_key_witness:
  "(0, 1) \<in> set (candidate_pairs (build_blocks (map derive colliding_roster))) \<and>
   (0::nat) < 1 \<and> 1 < length (map derive colliding_roster) \<and>
   distinct (candidate_pairs (build_blocks (map derive colliding_roster))) \<and>
   (\<exists>k. k \<in> set (block_keys (map derive colliding_roster ! 0)) \<and>
        k \<in> set (block_keys (map derive colliding_roster ! 1)))"
proof -
  have h: "(0, 1) \<in> set (candidate_pairs (build_blocks (map derive colliding_roster)))"
    by code_simp
  from candidates_share_key[OF h] h show ?thesis
    by blast
qed

lemma chain_candidates:
  "candidate_pairs (build_blocks (map derive chain_roster)) = [(0, 1), (1, 2)]"
  by code_simp

lemma chain_score_01:
  "fst (score_pair ratio_eq (map derive chain_roster ! 0) (map derive chain_roster ! 1)) = 108 / 10"
  by code_simp

lemma chain_score_12:
  "fst (score_pair ratio_eq (map derive chain_roster ! 1) (map derive chain_roster ! 2)) = 73 / 10"
  by code_simp

theorem definite_chain_same_cluster_witness:
  "\<exists>pairs_df ro multi.
     dedupe ratio_eq 5 3 chain_roster = Inr (pairs_df, ro, multi) \<and>
     (0, 2) \<notin> set (candidate_pairs (build_blocks (map derive chain_roster))) \<and>
     (\<exists>c \<in> set multi. 0 \<in> set c \<and> 1 \<in> set c \<and> 2 \<in> set c) \<and>
     dedup_cluster_id (ro ! 0) = dedup_cluster_id (ro ! 2)"
proof -
  let ?nr = "map derive chain_roster"
  have ne: "candidate_pairs (build_blocks ?nr) \<noteq> []"
    unfolding chain_candidates by simp
  from dedupe_ok[OF this, of ratio_eq 5 3] obtain pairs_df ro multi where
    d: "dedupe ratio_eq 5 3 chain_roster = Inr (pairs_df, ro, multi)"
    "set pairs_df = table_row ratio_eq 5 3 ?nr ` set (candidate_pairs (build_blocks ?nr))"
    by blast
  let ?r1 = "table_row ratio_eq 5 3 ?nr (0, 1)"
  let ?r2 = "table_row ratio_eq 5 3 ?nr (1, 2)"
  have r: "?r1 \<in> set pairs_df" "?r2 \<in> set pairs_df"
    unfolding d(2) chain_candidates by simp_all
  have m: "match_class ?r1 = ''definite''" "match_class ?r2 = ''definite''"
    unfolding table_row_sel chain_score_01 chain_score_12 by (simp_all add: classify_def)
  have i: "{idx_a ?r1, idx_b ?r1} = {0, 1}" "{idx_a ?r2, idx_b ?r2} = {1, 2}"
    by (simp_all add: table_row_sel)
  from definite_chain_same_cluster[OF d(1) r(1) m(1) i(1) r(2) m(2) i(2)]
  have "(\<exists>c \<in> set multi. 0 \<in> set c \<and> 1 \<in> set c \<and> 2 \<in> set c) \<and>
        dedup_cluster_id (ro ! 0) = dedup_cluster_id (ro ! 2)"
    by simp
  moreover have "(0, 2) \<notin> set (candidate_pairs (build_blocks ?nr))"
    unfolding chain_candidates by simp
  ultimately show ?thesis
    using d(1) by blast
qed

lemma chain_dedupe:
  "(case dedupe ratio_eq 5 3 chain_roster of
      Inl e \<Rightarrow> False
    | Inr (pairs_df, ro, multi) \<Rightarrow>
        multi = [[0, 1, 2]] \<and> map dedup_cluster_id ro = [''P1'', ''P1'', ''P1''])"
  by code_simp

theorem canonical_id_min_witness:
  "\<exists>pairs_df ro multi.
     dedupe ratio_eq 5 3 chain_roster = Inr (pairs_df, ro, multi) \<and>
     multi = [[0, 1, 2]] \<and> map dedup_cluster_id ro = [''P1'', ''P1'', ''P1''] \<and>
     dedup_cluster_id (ro ! 0) = Min ((\<lambda>j. provider_id (chain_roster ! j)) ` set [0, 1, 2])"
proof -
  from chain_dedupe obtain pairs_df ro multi where
    d: "dedupe ratio_eq 5 3 chain_roster = Inr (pairs_df, ro, multi)"
    "multi = [[0, 1, 2]]" "map dedup_cluster_id ro = [''P1'', ''P1'', ''P1'']"
    by (auto split: sum.splits)
  from canonical_id_min[OF d(1)] d(2)
  have "dedup_cluster_id (ro ! 0) = Min ((\<lambda>j. provider_id (chain_roster ! j)) ` set [0, 1, 2])"
    by simp
  with d show ?thesis
    by (intro exI[of _ pairs_df] exI[of _ ro] exI[of _ multi] conjI)
qed

lemma scenario1_candidates:
  "candidate_pairs (build_blocks (map derive scenario1_roster)) = [(0, 1)]"
  by code_simp

lemma scenario1_npi_eq:
  "npi_eq (map derive scenario1_roster ! 0) (map derive scenario1_roster ! 1)"
  by code_simp

lemma scenario1_lic_eq:
  "lic_eq (map derive scenario1_roster ! 0) (map derive scenario1_roster ! 1)"
  by code_simp

theorem npi_license_definite_witness:
  "\<exists>pairs_df ro multi. dedupe ratio_eq 5 3 scenario1_roster = Inr (pairs_df, ro, multi) \<and>
     (\<exists>r \<in> set pairs_df. idx_a r = 0 \<and> idx_b r = 1 \<and> 11 \<le> score r \<and>
        match_class r = ''definite'') \<and>
     (\<exists>c \<in> set multi. 0 \<in> set c \<and> 1 \<in> set c) \<and>
     dedup_cluster_id (ro ! 0) = dedup_cluster_id (ro ! 1)"
proof (rule npi_license_definite)
  show "(0, 1) \<in> set (candidate_pairs (build_blocks (map derive scenario1_roster)))"
    unfolding scenario1_candidates by simp
  show "npi_eq (map derive scenario1_roster ! 0) (map derive scenario1_roster ! 1)"
    by (rule scenario1_npi_eq)
  show "lic_eq (map derive scenario1_roster ! 0) (map derive scenario1_roster ! 1)"
    by (rule scenario1_lic_eq)
  show "0 \<le> ratio_eq (name_norm (map derive scenario1_roster ! 0))
                      (name_norm (map derive scenario1_roster ! 1))"
    by (simp add: ratio_eq_def)
qed

lemma phone_fields:
  "name_norm (map derive phone_roster ! 0) = []" "name_norm (map derive phone_roster ! 1) = []"
  "addr_norm (map derive phone_roster ! 0) = []" "addr_norm (map derive phone_roster ! 1) = []"
  "npi_norm (map derive phone_roster ! 0) = []" "npi_norm (map derive phone_roster ! 1) = []"
  "license_norm (map derive phone_roster ! 0) = []" "license_norm (map derive phone_roster ! 1) = []"
  "tax_norm (map derive phone_roster ! 0) = []" "tax_norm (map derive phone_roster ! 1) = []"
  "phone_last4_c (map derive phone_roster ! 0) = ''1234''"
  "phone_last4_c (map derive phone_roster ! 1) = ''1234''"
  by code_simp+

lemma phone_candidates: "candidate_pairs (build_blocks (map derive phone_roster)) = [(0, 1)]"
  by code_simp

lemma phone_score:
  "fst (score_pair ratio_eq (map derive phone_roster ! 0) (map derive phone_roster ! 1)) = 63 / 10"
  by code_simp

lemma phone_conflict_fields:
  "name_norm (map derive phone_conflict_roster ! 0) = []"
  "name_norm (map derive phone_conflict_roster ! 1) = []"
  "addr_norm (map derive phone_conflict_roster ! 0) = []"
  "addr_norm (map derive phone_conflict_roster ! 1) = []"
  "npi_norm (map derive phone_conflict_roster ! 0) = ''111''"
  "npi_norm (map derive phone_conflict_roster ! 1) = ''222''"
  "license_norm (map derive phone_conflict_roster ! 0) = []"
  "license_norm (map derive phone_conflict_roster ! 1) = []"
  "tax_norm (map derive phone_conflict_roster ! 0) = []"
  "tax_norm (map derive phone_conflict_roster ! 1) = []"
  "phone_last4_c (map derive phone_conflict_roster ! 0) = ''1234''"
  "phone_last4_c (map derive phone_conflict_roster ! 1) = ''1234''"
  by code_simp+

lemma phone_conflict_candidates:
  "candidate_pairs (build_blocks (map derive phone_conflict_roster)) = [(0, 1)]"
  by code_simp

lemma phone_conflict_score:
  "fst (score_pair ratio_eq (map derive phone_conflict_roster ! 0)
          (map derive phone_conflict_roster ! 1)) = 23 / 10"
  by code_simp


text \<open>
  C10 as stated fails. The two records of \<open>phone_roster\<close> have empty names and addresses
  and share only the phone last-4: their score is 6.3, not 7.3. The two records of
  \<open>phone_conflict_roster\<close> are such a pair too, with two different NPIs: their score is
  2.3 and the pair is a nonmatch.
\<close>

theorem empty_names_phone_pair_counterexample:
  "name_norm (map derive phone_roster ! 0) = [] \<and> name_norm (map derive phone_roster ! 1) = [] \<and>
   addr_norm (map derive phone_roster ! 0) = [] \<and> addr_norm (map derive phone_roster ! 1) = [] \<and>
   npi_norm (map derive phone_roster ! 0) = [] \<and> npi_norm (map derive phone_roster ! 1) = [] \<and>
   license_norm (map derive phone_roster ! 0) = [] \<and>
   license_norm (map derive phone_roster ! 1) = [] \<and>
   tax_norm (map derive phone_roster ! 0) = [] \<and> tax_norm (map derive phone_roster ! 1) = [] \<and>
   phone_last4_c (map derive phone_roster ! 0) = ''1234'' \<and>
   phone_last4_c (map derive phone_roster ! 1) = ''1234'' \<and>
   candidate_pairs (build_blocks (map derive phone_roster)) = [(0, 1)] \<and>
   fst (score_pair ratio_eq (map derive phone_roster ! 0) (map derive phone_roster ! 1)) = 63 / 10 \<and>
   fst (score_pair ratio_eq (map derive phone_roster ! 0) (map derive phone_roster ! 1)) \<noteq> 73 / 10 \<and>
   name_norm (map derive phone_conflict_roster ! 0) = [] \<and>
   name_norm (map derive phone_conflict_roster ! 1) = [] \<and>
   addr_norm (map derive phone_conflict_roster ! 0) = [] \<and>
   addr_norm (map derive phone_conflict_roster ! 1) = [] \<and>
   npi_norm (map derive phone_conflict_roster ! 0) = ''111'' \<and>
   npi_norm (map derive phone_conflict_roster ! 1) = ''222'' \<and>
   license_norm (map derive phone_conflict_roster ! 0) = [] \<and>
   license_norm (map derive phone_conflict_roster ! 1) = [] \<and>
   tax_norm (map derive phone_conflict_roster ! 0) = [] \<and>
   tax_norm (map derive phone_conflict_roster ! 1) = [] \<and>
   phone_last4_c (map derive phone_conflict_roster ! 0) = ''1234'' \<and>
   phone_last4_c (map derive phone_conflict_roster ! 1) = ''1234'' \<and>
   candidate_pairs (build_blocks (map derive phone_conflict_roster)) = [(0, 1)] \<and>
   fst (score_pair ratio_eq (map derive phone_conflict_roster ! 0)
          (map derive phone_conflict_roster ! 1)) = 23 / 10 \<and>
   classify 5 3 (fst (score_pair ratio_eq (map derive phone_conflict_roster ! 0)
          (map derive phone_conflict_roster ! 1))) = ''nonmatch''"
  unfolding phone_fields phone_candidates phone_score phone_conflict_fields
    phone_conflict_candidates phone_conflict_score
  by (simp add: classify_def)

theorem empty_names_phone_pair_witness:
  "(0, 1) \<in> set (candidate_pairs (build_blocks (map derive phone_roster))) \<and>
   (\<exists>pairs_df ro multi. dedupe ratio_eq 5 3 phone_roster = Inr (pairs_df, ro, multi) \<and>
      (\<exists>r \<in> set pairs_df. idx_a r = 0 \<and> idx_b r = 1 \<and>
         (score r = 63 / 10 \<and> match_class r = ''definite'')) \<and>
      (\<exists>c \<in> set multi. 0 \<in> set c \<and> 1 \<in> set c) \<and>
      dedup_cluster_id (ro ! 0) = dedup_cluster_id (ro ! 1))"
proof (rule empty_names_phone_pair)
  show "(0::nat) < 1"
    by simp
  show "1 < length phone_roster"
    by (simp add: phone_roster_def)
  show "ph4_eq (map derive phone_roster ! 0) (map derive phone_roster ! 1)"
    unfolding ph4_eq_def phone_fields by simp
  show "\<not> npi_eq (map derive phone_roster ! 0) (map derive phone_roster ! 1)"
    unfolding npi_eq_def phone_fields by simp
  show "\<not> lic_eq (map derive phone_roster ! 0) (map derive phone_roster ! 1)"
    unfolding lic_eq_def phone_fields by simp
  show "\<not> tax_eq (map derive phone_roster ! 0) (map derive phone_roster ! 1)"
    unfolding tax_eq_def phone_fields by simp
  show "\<not> npi_conflict (map derive phone_roster ! 0) (map derive phone_roster ! 1)"
    unfolding npi_conflict_def phone_fields by simp
qed (rule phone_fields)+

lemma conflict_fields:
  "name_norm (map derive conflict_roster ! 0) = ''john smith''"
  "name_norm (map derive conflict_roster ! 1) = ''john smith''"
  "addr_norm (map derive conflict_roster ! 0) = ''1 main st''"
  "addr_norm (map derive conflict_roster ! 1) = ''1 main st''"
  "npi_norm (map derive conflict_roster ! 0) = ''123''"
  "npi_norm (map derive conflict_roster ! 1) = ''456''"
  "license_norm (map derive conflict_roster ! 0) = []"
  "license_norm (map derive conflict_roster ! 1) = []"
  "tax_norm (map derive conflict_roster ! 0) = []" "tax_norm (map derive conflict_roster ! 1) = []"
  "phone_last4_c (map derive conflict_roster ! 0) = []"
  "phone_last4_c (map derive conflict_roster ! 1) = []"
  by code_simp+

lemma conflict_candidates: "candidate_pairs (build_blocks (map derive conflict_roster)) = [(0, 1)]"
  by code_simp

lemma conflict_score:
  "fst (score_pair ratio_eq (map derive conflict_roster ! 0) (map derive conflict_roster ! 1))
   = 8 / 10"
  by code_simp

lemma main_st_tokens: "name_tokens ''1 main st'' = [''1'', ''main'', ''st'']"
  by code_simp

lemma nan_conflict_fields:
  "name_norm (map derive nan_conflict_roster ! 0) = ''john smith''"
  "name_norm (map derive nan_conflict_roster ! 1) = ''john smith''"
  "addr_norm (map derive nan_conflict_roster ! 0) = ''1 main st''"
  "addr_norm (map derive nan_conflict_roster ! 1) = ''1 main st''"
  "npi_norm (map derive nan_conflict_roster ! 0) = ''nan''"
  "npi_norm (map derive nan_conflict_roster ! 1) = ''456''"
  "license_norm (map derive nan_conflict_roster ! 0) = []"
  "license_norm (map derive nan_conflict_roster ! 1) = []"
  "tax_norm (map derive nan_conflict_roster ! 0) = []"
  "tax_norm (map derive nan_conflict_roster ! 1) = []"
  "phone_last4_c (map derive nan_conflict_roster ! 0) = []"
  "phone_last4_c (map derive nan_conflict_roster ! 1) = []"
  by code_simp+

lemma nan_conflict_candidates:
  "candidate_pairs (build_blocks (map derive nan_conflict_roster)) = [(0, 1)]"
  by code_simp

lemma nan_conflict_score:
  "fst (score_pair ratio_eq (map derive nan_conflict_roster ! 0) (map derive nan_conflict_roster ! 1))
   = 48 / 10"
  by code_simp

text \<open>
  C1 as stated fails. The two records of \<open>conflict_roster\<close> have the same normalized name
  and address, two different NPIs and nothing else: their score is within \<open>10\<^sup>-\<^sup>9\<close> of
  0.8, and is not -0.2. In \<open>nan_conflict_roster\<close> one of the two different NPIs is the
  string \<open>nan\<close>: the score is within \<open>10\<^sup>-\<^sup>9\<close> of 4.8 and the pair is classified possible.
\<close>

theorem npi_conflict_override_counterexample:
  "candidate_pairs (build_blocks (map derive conflict_roster)) = [(0, 1)] \<and>
   name_norm (map derive conflict_roster ! 0) = ''john smith'' \<and>
   name_norm (map derive conflict_roster ! 1) = ''john smith'' \<and>
   ratio_eq ''john smith'' ''john smith'' = 1 \<and>
   addr_norm (map derive conflict_roster ! 0) = ''1 main st'' \<and>
   addr_norm (map derive conflict_roster ! 1) = ''1 main st'' \<and>
   token_overlap ''1 main st'' ''1 main st'' = 1 \<and>
   npi_norm (map derive conflict_roster ! 0) = ''123'' \<and>
   npi_norm (map derive conflict_roster ! 1) = ''456'' \<and>
   license_norm (map derive conflict_roster ! 0) = [] \<and>
   license_norm (map derive conflict_roster ! 1) = [] \<and>
   tax_norm (map derive conflict_roster ! 0) = [] \<and>
   tax_norm (map derive conflict_roster ! 1) = [] \<and>
   phone_last4_c (map derive conflict_roster ! 0) = [] \<and>
   phone_last4_c (map derive conflict_roster ! 1) = [] \<and>
   \<bar>fst (score_pair ratio_eq (map derive conflict_roster ! 0) (map derive conflict_roster ! 1))
      - 8 / 10\<bar> \<le> 1 / 10 ^ 9 \<and>
   fst (score_pair ratio_eq (map derive conflict_roster ! 0) (map derive conflict_roster ! 1))
     \<noteq> - (2 / 10) \<and>
   classify 5 3 (fst (score_pair ratio_eq (map derive conflict_roster ! 0)
          (map derive conflict_roster ! 1))) = ''nonmatch'' \<and>
   candidate_pairs (build_blocks (map derive nan_conflict_roster)) = [(0, 1)] \<and>
   name_norm (map derive nan_conflict_roster ! 0) = ''john smith'' \<and>
   name_norm (map derive nan_conflict_roster ! 1) = ''john smith'' \<and>
   addr_norm (map derive nan_conflict_roster ! 0) = ''1 main st'' \<and>
   addr_norm (map derive nan_conflict_roster ! 1) = ''1 main st'' \<and>
   npi_norm (map derive nan_conflict_roster ! 0) = ''nan'' \<and>
   npi_norm (map derive nan_conflict_roster ! 1) = ''456'' \<and>
   license_norm (map derive nan_conflict_roster ! 0) = [] \<and>
   license_norm (map derive nan_conflict_roster ! 1) = [] \<and>
   tax_norm (map derive nan_conflict_roster ! 0) = [] \<and>
   tax_norm (map derive nan_conflict_roster ! 1) = [] \<and>
   phone_last4_c (map derive nan_conflict_roster ! 0) = [] \<and>
   phone_last4_c (map derive nan_conflict_roster ! 1) = [] \<and>
   \<bar>fst (score_pair ratio_eq (map derive nan_conflict_roster ! 0)
          (map derive nan_conflict_roster ! 1)) - 48 / 10\<bar> \<le> 1 / 10 ^ 9 \<and>
   classify 5 3 (fst (score_pair ratio_eq (map derive nan_conflict_roster ! 0)
          (map derive nan_conflict_roster ! 1))) = ''possible''"
  unfolding conflict_fields conflict_candidates conflict_score nan_conflict_fields
    nan_conflict_candidates nan_conflict_score
  by (simp add: classify_def ratio_eq_def token_overlap_same)

theorem npi_conflict_override_witness:
  "\<exists>pairs_df ro multi. dedupe ratio_eq 5 3 conflict_roster = Inr (pairs_df, ro, multi) \<and>
     (\<exists>r \<in> set pairs_df. idx_a r = 0 \<and> idx_b r = 1 \<and>
        (\<bar>score r - 8 / 10\<bar> \<le> 1 / 10 ^ 9 \<and> match_class r = ''nonmatch'' \<and>
         reasons r = [''npi_conflict'']))"
proof (rule npi_conflict_override)
  show "(0, 1) \<in> set (candidate_pairs (build_blocks (map derive conflict_roster)))"
    unfolding conflict_candidates by simp
  show "ratio_eq (name_norm (map derive conflict_roster ! 0))
          (name_norm (map derive conflict_roster ! 1)) = 1"
    unfolding conflict_fields by (simp add: ratio_eq_def)
  show "set (name_tokens (addr_norm (map derive conflict_roster ! 0))) \<noteq> {}"
    unfolding conflict_fields main_st_tokens by simp
qed (unfold conflict_fields, simp_all)

lemma nan_fields:
  "npi_norm (map derive nan_roster ! 0) = ''nan''" "npi_norm (map derive nan_roster ! 1) = ''nan''"
  by code_simp+

lemma nan_blocks:
  "build_blocks (map derive nan_roster)
   = [(''LNP::lee'', [0]), (''PH4::1234'', [0, 1]), (''LNP::ray'', [1])]"
  by code_simp

lemma nan_candidates: "candidate_pairs (build_blocks (map derive nan_roster)) = [(0, 1)]"
  by code_simp

lemma nan_score:
  "fst (score_pair ratio_eq (map derive nan_roster ! 0) (map derive nan_roster ! 1)) = 83 / 10"
  by code_simp

theorem nan_npi_asymmetry_witness:
  "npi_norm (map derive nan_roster ! 0) = ''nan'' \<and> npi_norm (map derive nan_roster ! 1) = ''nan'' \<and>
   build_blocks (map derive nan_roster)
     = [(''LNP::lee'', [0]), (''PH4::1234'', [0, 1]), (''LNP::ray'', [1])] \<and>
   candidate_pairs (build_blocks (map derive nan_roster)) = [(0, 1)] \<and>
   ''npi_eq'' \<in> set (snd (score_pair ratio_eq (map derive nan_roster ! 0) (map derive nan_roster ! 1))) \<and>
   ''npi_conflict''
     \<notin> set (snd (score_pair ratio_eq (map derive nan_roster ! 0) (map derive nan_roster ! 1))) \<and>
   fst (score_pair ratio_eq (map derive nan_roster ! 0) (map derive nan_roster ! 1)) = 83 / 10 \<and>
   fst (score_pair ratio_eq (map derive nan_roster ! 0) (map derive nan_roster ! 1))
     = 6 + fst (score_pair ratio_eq ((map derive nan_roster ! 0)\<lparr>npi_norm := []\<rparr>)
                  ((map derive nan_roster ! 1)\<lparr>npi_norm := []\<rparr>))"
proof -
  let ?r0 = "map derive nan_roster ! 0" and ?r1 = "map derive nan_roster ! 1"
  note t = nan_npi_asymmetry[of "map derive nan_roster" 0 ?r0 ?r1 ratio_eq]
  have both: "npi_norm ?r0 = ''nan'' \<and> npi_norm ?r1 = ''nan''"
    using nan_fields by (intro conjI)
  from t both have 1: "''npi_eq'' \<in> set (snd (score_pair ratio_eq ?r0 ?r1))"
    by blast
  from t both have 2: "''npi_conflict'' \<notin> set (snd (score_pair ratio_eq ?r0 ?r1))"
    by blast
  from t both have 3: "fst (score_pair ratio_eq ?r0 ?r1)
     = 6 + fst (score_pair ratio_eq (?r0\<lparr>npi_norm := []\<rparr>) (?r1\<lparr>npi_norm := []\<rparr>))"
    by blast
  from nan_fields nan_blocks nan_candidates 1 2 nan_score 3 show ?thesis
    by (intro conjI)
qed







end
